theory Spec2Isabelle
  imports Main "HOL-Library.Sublist" "HOL-Library.Char_ord" "HOL-Library.AList"
begin

section \<open>Python strings\<close>

text \<open>
  A Python \<^verbatim>\<open>str\<close> is modelled as a \<^typ>\<open>string\<close>, a list of 8-bit characters: the bytes
  of the text in UTF-8. \<^verbatim>\<open>str.lower()\<close> maps the letters \<^verbatim>\<open>A\<close> .. \<^verbatim>\<open>Z\<close> to \<^verbatim>\<open>a\<close> .. \<^verbatim>\<open>z\<close>
  and leaves every other ASCII character as it is; the model leaves the bytes beyond ASCII
  unchanged as well. The operator \<^verbatim>\<open>word in text\<close> on two strings is containment of
  \<^verbatim>\<open>word\<close> as a contiguous run of characters of \<^verbatim>\<open>text\<close>.
\<close>

definition lower_char :: "char \<Rightarrow> char" where
  "lower_char c =
     (if CHR ''A'' \<le> c \<and> c \<le> CHR ''Z'' then char_of (of_char c + (32::nat)) else c)"

definition lower :: "string \<Rightarrow> string" where
  "lower s = map lower_char s"

fun contains :: "string \<Rightarrow> string \<Rightarrow> bool" where
  "contains w [] = (w = [])"
| "contains w (c # cs) = (prefix w (c # cs) \<or> contains w cs)"

text \<open>The bytes of a code point in UTF-8.\<close>

definition utf8 :: "nat \<Rightarrow> string" where
  "utf8 n =
     (if n < 0x80 then [char_of n]
      else if n < 0x800 then [char_of (0xC0 + n div 64), char_of (0x80 + n mod 64)]
      else if n < 0x10000 then
        [char_of (0xE0 + n div 4096), char_of (0x80 + n div 64 mod 64), char_of (0x80 + n mod 64)]
      else
        [char_of (0xF0 + n div 262144), char_of (0x80 + n div 4096 mod 64),
         char_of (0x80 + n div 64 mod 64), char_of (0x80 + n mod 64)])"

text \<open>
  \<^verbatim>\<open>str.strip()\<close> removes, at both ends, the characters for which \<^verbatim>\<open>str.isspace()\<close> holds:
  the ASCII white space and separators, and the Unicode spaces and line separators.
  \<open>py_space_points\<close> lists their code points and \<open>py_spaces\<close> their bytes in UTF-8.
  \<open>strip_left\<close> removes from the head of a text every leading byte sequence of the given
  list.
\<close>

definition py_space_points :: "nat list" where
  "py_space_points =
     [0x09, 0x0A, 0x0B, 0x0C, 0x0D, 0x1C, 0x1D, 0x1E, 0x1F, 0x20, 0x85, 0xA0, 0x1680,
      0x2000, 0x2001, 0x2002, 0x2003, 0x2004, 0x2005, 0x2006, 0x2007, 0x2008, 0x2009, 0x200A,
      0x2028, 0x2029, 0x202F, 0x205F, 0x3000]"

definition py_spaces :: "string list" where
  "py_spaces =
     [[CHR 0x09], [CHR 0x0A], [CHR 0x0B], [CHR 0x0C], [CHR 0x0D],
      [CHR 0x1C], [CHR 0x1D], [CHR 0x1E], [CHR 0x1F], [CHR 0x20],
      [CHR 0xC2, CHR 0x85], [CHR 0xC2, CHR 0xA0], [CHR 0xE1, CHR 0x9A, CHR 0x80],
      [CHR 0xE2, CHR 0x80, CHR 0x80], [CHR 0xE2, CHR 0x80, CHR 0x81],
      [CHR 0xE2, CHR 0x80, CHR 0x82], [CHR 0xE2, CHR 0x80, CHR 0x83],
      [CHR 0xE2, CHR 0x80, CHR 0x84], [CHR 0xE2, CHR 0x80, CHR 0x85],
      [CHR 0xE2, CHR 0x80, CHR 0x86], [CHR 0xE2, CHR 0x80, CHR 0x87],
      [CHR 0xE2, CHR 0x80, CHR 0x88], [CHR 0xE2, CHR 0x80, CHR 0x89],
      [CHR 0xE2, CHR 0x80, CHR 0x8A], [CHR 0xE2, CHR 0x80, CHR 0xA8],
      [CHR 0xE2, CHR 0x80, CHR 0xA9], [CHR 0xE2, CHR 0x80, CHR 0xAF],
      [CHR 0xE2, CHR 0x81, CHR 0x9F], [CHR 0xE3, CHR 0x80, CHR 0x80]]"

fun strip_left :: "string list \<Rightarrow> string \<Rightarrow> string" where
  "strip_left ws [] = []"
| "strip_left ws (c # cs) =
     (case find (\<lambda>w. w \<noteq> [] \<and> prefix w (c # cs)) ws of
        None \<Rightarrow> c # cs
      | Some w \<Rightarrow> strip_left ws (drop (length w - 1) cs))"

definition strip :: "string \<Rightarrow> string" where
  "strip s = rev (strip_left (map rev py_spaces) (rev (strip_left py_spaces s)))"

section \<open>Exceptions\<close>

text \<open>
  Every \<^verbatim>\<open>raise\<close> is a value. The three constructors are the classes the handlers of the
  repository tell apart: \<^verbatim>\<open>ServerError\<close> (raised by \<^verbatim>\<open>cancel\<close>), \<^verbatim>\<open>json.JSONDecodeError\<close>
  (caught on its own by \<^verbatim>\<open>check_safety\<close> and \<^verbatim>\<open>generate_llm_response\<close>) and every other
  instance of \<^verbatim>\<open>Exception\<close>, which carries a label: the name of its class where these
  definitions raise it, whatever tells it apart where the environment does. What \<^verbatim>\<open>except Exception\<close>
  does not catch (\<^verbatim>\<open>KeyboardInterrupt\<close>, \<^verbatim>\<open>SystemExit\<close>, a cancelled coroutine) is outside the
  model. The text \<^verbatim>\<open>str(e)\<close> of an exception is composed by its class (for a decode error,
  from the fault and its position); the functions that read it take it from their
  argument \<open>str_exn\<close>.
\<close>

datatype a2a_error = UnsupportedOperationError

datatype exn =
    ServerError a2a_error
  | JSONDecodeError
  | Exception string

section \<open>JSON values and the decoder\<close>

text \<open>
  The values \<^verbatim>\<open>json.loads\<close> returns. A number keeps its lexeme (no claim depends on its
  value); an object is the list of its keys and values in insertion order, a repeated key
  keeping its first place and its last value, as a Python dict does.
\<close>

datatype json =
    JNull
  | JBool bool
  | JNumber string
  | JString string
  | JArray "json list"
  | JObject "(string \<times> json) list"

text \<open>
  \<^verbatim>\<open>d.get(key, default)\<close> on a decoded value: only a dict has the method, every other value
  raises \<^verbatim>\<open>AttributeError\<close>.
\<close>

definition dict_get :: "json \<Rightarrow> string \<Rightarrow> json \<Rightarrow> exn + json" where
  "dict_get d k dflt =
     (case d of
        JObject kvs \<Rightarrow> Inr (case map_of kvs k of Some v \<Rightarrow> v | None \<Rightarrow> dflt)
      | _ \<Rightarrow> Inl (Exception ''AttributeError''))"

text \<open>
  The functions of the repository call the standard library's \<^verbatim>\<open>json.loads\<close>; their models
  take the decoder as the argument \<open>loads\<close>, and the theorems about them hold for every
  decoder. \<open>json_loads\<close> below is the decoder the concrete runs use: it follows the
  library's scanner (\<^verbatim>\<open>scan_once\<close>, \<^verbatim>\<open>JSONObject\<close>, \<^verbatim>\<open>JSONArray\<close>, \<^verbatim>\<open>scanstring\<close> in strict mode,
  the number pattern and the constants \<^verbatim>\<open>NaN\<close>, \<^verbatim>\<open>Infinity\<close>, \<^verbatim>\<open>-Infinity\<close>) on the bytes of the
  text.

  Two limits of the interpreter reach the decoder. The scanner enters every object and
  every array through the interpreter's recursion check: \<open>recursion_allowance\<close> is the
  number of containers that may be open at once where \<^verbatim>\<open>json.loads\<close> is called (the
  recursion limit less the frames in use there), and one container more raises a
  \<^verbatim>\<open>RecursionError\<close>. The conversion of an integer lexeme of more than 640 digits raises a
  \<^verbatim>\<open>ValueError\<close> when the lexeme has more digits than \<open>int_max_str_digits\<close> and that limit is
  not 0. Neither exception is a \<^verbatim>\<open>JSONDecodeError\<close>.

  The recursion of these definitions runs on fuel; \<open>json_loads\<close> gives it twice the length
  of the text and two more. An exhausted budget would be reported as \<open>out_of_fuel\<close>, which
  is no exception of Python; by \<open>json_loads_in_budget\<close> below it never is.
\<close>

record interpreter =
  recursion_allowance :: nat
  int_max_str_digits :: nat

definition out_of_fuel :: exn where
  "out_of_fuel = Exception ''out of fuel''"

definition json_ws :: "char \<Rightarrow> bool" where
  "json_ws c = (c = CHR '' '' \<or> c = CHR 0x09 \<or> c = CHR 0x0A \<or> c = CHR 0x0D)"

definition skip_ws :: "string \<Rightarrow> string" where
  "skip_ws s = dropWhile json_ws s"

definition is_digit :: "char \<Rightarrow> bool" where
  "is_digit c = (CHR ''0'' \<le> c \<and> c \<le> CHR ''9'')"

definition hex_digit :: "char \<Rightarrow> nat option" where
  "hex_digit c =
     (if CHR ''0'' \<le> c \<and> c \<le> CHR ''9'' then Some (of_char c - 48)
      else if CHR ''a'' \<le> c \<and> c \<le> CHR ''f'' then Some (of_char c - 87)
      else if CHR ''A'' \<le> c \<and> c \<le> CHR ''F'' then Some (of_char c - 55)
      else None)"

definition hex4 :: "string \<Rightarrow> (nat \<times> string) option" where
  "hex4 s =
     (case s of
        a # b # c # d # rest \<Rightarrow>
          (case (hex_digit a, hex_digit b, hex_digit c, hex_digit d) of
             (Some w, Some x, Some y, Some z) \<Rightarrow> Some (((w * 16 + x) * 16 + y) * 16 + z, rest)
           | _ \<Rightarrow> None)
      | _ \<Rightarrow> None)"

definition unescape :: "char \<Rightarrow> char option" where
  "unescape e =
     (if e = CHR 0x22 then Some (CHR 0x22)
      else if e = CHR 0x5C then Some (CHR 0x5C)
      else if e = CHR ''/'' then Some (CHR ''/'')
      else if e = CHR ''b'' then Some (CHR 0x08)
      else if e = CHR ''f'' then Some (CHR 0x0C)
      else if e = CHR ''n'' then Some (CHR 0x0A)
      else if e = CHR ''r'' then Some (CHR 0x0D)
      else if e = CHR ''t'' then Some (CHR 0x09)
      else None)"

text \<open>
  The four hexadecimal digits of a Unicode escape (the text after the backslash and the
  letter u); a high surrogate followed by an escaped low surrogate is one code point.
\<close>

definition unicode_escape :: "string \<Rightarrow> (string \<times> string) option" where
  "unicode_escape s =
     (case hex4 s of
        None \<Rightarrow> None
      | Some (uni, rest) \<Rightarrow>
          (if 0xD800 \<le> uni \<and> uni \<le> 0xDBFF \<and> prefix [CHR 0x5C, CHR ''u''] rest
           then (case hex4 (drop 2 rest) of
                   None \<Rightarrow> None
                 | Some (uni2, rest2) \<Rightarrow>
                     if 0xDC00 \<le> uni2 \<and> uni2 \<le> 0xDFFF
                     then Some (utf8 (0x10000 + (uni - 0xD800) * 1024 + (uni2 - 0xDC00)), rest2)
                     else Some (utf8 uni, rest))
           else Some (utf8 uni, rest)))"

text \<open>
  \<^verbatim>\<open>scanstring\<close>, entered after the opening quote: the decoded string and the text after the
  closing quote. A control character inside the string is an error (strict mode).
\<close>

fun scanstring :: "nat \<Rightarrow> string \<Rightarrow> exn + string \<times> string" where
  "scanstring 0 s = Inl out_of_fuel"
| "scanstring (Suc n) [] = Inl JSONDecodeError"
| "scanstring (Suc n) (c # cs) =
     (if c = CHR 0x22 then Inr ([], cs)
      else if c = CHR 0x5C then
        (case cs of
           [] \<Rightarrow> Inl JSONDecodeError
         | e # es \<Rightarrow>
             if e = CHR ''u'' then
               (case unicode_escape es of
                  None \<Rightarrow> Inl JSONDecodeError
                | Some (bytes, rest) \<Rightarrow>
                    (case scanstring n rest of
                       Inl err \<Rightarrow> Inl err
                     | Inr (str, r) \<Rightarrow> Inr (bytes @ str, r)))
             else
               (case unescape e of
                  None \<Rightarrow> Inl JSONDecodeError
                | Some ch \<Rightarrow>
                    (case scanstring n es of
                       Inl err \<Rightarrow> Inl err
                     | Inr (str, r) \<Rightarrow> Inr (ch # str, r))))
      else if c < CHR '' '' then Inl JSONDecodeError
      else (case scanstring n cs of
              Inl err \<Rightarrow> Inl err
            | Inr (str, r) \<Rightarrow> Inr (c # str, r)))"

text \<open>
  The number pattern: an optional minus sign, \<^verbatim>\<open>0\<close> or a digit other than \<^verbatim>\<open>0\<close> followed by
  digits, an optional fraction, an optional exponent. The result is the longest match and the
  text after it.
\<close>

definition match_int :: "string \<Rightarrow> (string \<times> string) option" where
  "match_int s =
     (case s of
        [] \<Rightarrow> None
      | d # ds \<Rightarrow>
          if \<not> is_digit d then None
          else if d = CHR ''0'' then Some ([d], ds)
          else Some (d # takeWhile is_digit ds, dropWhile is_digit ds))"

definition match_frac :: "string \<Rightarrow> string \<times> string" where
  "match_frac s =
     (case s of
        p # f # fs \<Rightarrow>
          if p = CHR ''.'' \<and> is_digit f
          then (p # f # takeWhile is_digit fs, dropWhile is_digit fs)
          else ([], s)
      | _ \<Rightarrow> ([], s))"

definition match_exp :: "string \<Rightarrow> string \<times> string" where
  "match_exp s =
     (case s of
        [] \<Rightarrow> ([], s)
      | e # es \<Rightarrow>
          if e = CHR ''e'' \<or> e = CHR ''E'' then
            (let sign = (if prefix ''+'' es \<or> prefix ''-'' es then take 1 es else []);
                 ds = drop (length sign) es
             in if takeWhile is_digit ds = [] then ([], s)
                else (e # sign @ takeWhile is_digit ds, dropWhile is_digit ds))
          else ([], s))"

definition match_number :: "string \<Rightarrow> (string \<times> string) option" where
  "match_number s =
     (let sign = (if prefix ''-'' s then ''-'' else []) in
      case match_int (drop (length sign) s) of
        None \<Rightarrow> None
      | Some (intpart, s2) \<Rightarrow>
          (case match_frac s2 of
             (frac, s3) \<Rightarrow>
               (case match_exp s3 of
                  (expo, s4) \<Rightarrow> Some (sign @ intpart @ frac @ expo, s4))))"

text \<open>
  An integer lexeme (no fraction, no exponent) is converted by \<^verbatim>\<open>int\<close>, which counts its
  digits against the interpreter's limit; a lexeme with a fraction or an exponent is
  converted by \<^verbatim>\<open>float\<close>, which has no limit.
\<close>

definition is_float :: "string \<Rightarrow> bool" where
  "is_float lexeme = list_ex (\<lambda>c. c = CHR ''.'' \<or> c = CHR ''e'' \<or> c = CHR ''E'') lexeme"

definition int_too_long :: "interpreter \<Rightarrow> string \<Rightarrow> bool" where
  "int_too_long py lexeme =
     (let digits = length (filter is_digit lexeme) in
      \<not> is_float lexeme \<and> 640 < digits \<and>
      0 < int_max_str_digits py \<and> int_max_str_digits py < digits)"

text \<open>
  The values that are neither a string nor a container: the three literals, a number, and
  the constants the library accepts beside them, tried in the scanner's order.
\<close>

definition scan_constant :: "interpreter \<Rightarrow> string \<Rightarrow> exn + json \<times> string" where
  "scan_constant py s =
     (if prefix ''null'' s then Inr (JNull, drop 4 s)
      else if prefix ''true'' s then Inr (JBool True, drop 4 s)
      else if prefix ''false'' s then Inr (JBool False, drop 5 s)
      else
        (case match_number s of
           Some (lexeme, rest) \<Rightarrow>
             if int_too_long py lexeme then Inl (Exception ''ValueError'')
             else Inr (JNumber lexeme, rest)
         | None \<Rightarrow>
             if prefix ''NaN'' s then Inr (JNumber ''NaN'', drop 3 s)
             else if prefix ''Infinity'' s then Inr (JNumber ''Infinity'', drop 8 s)
             else if prefix ''-Infinity'' s then Inr (JNumber ''-Infinity'', drop 9 s)
             else Inl JSONDecodeError))"

text \<open>
  \<^verbatim>\<open>scan_once\<close> reads one value at the head of the text; \<open>depth\<close> is the number of containers
  it may still enter, one inside the other. \<open>json_array\<close> is entered at the first element
  of a non-empty array and \<open>json_object\<close> at the first key of a non-empty object; both carry
  what they have read so far.
\<close>

fun scan_once :: "nat \<Rightarrow> interpreter \<Rightarrow> nat \<Rightarrow> string \<Rightarrow> exn + json \<times> string"
  and json_array ::
    "nat \<Rightarrow> interpreter \<Rightarrow> nat \<Rightarrow> string \<Rightarrow> json list \<Rightarrow> exn + json \<times> string"
  and json_object ::
    "nat \<Rightarrow> interpreter \<Rightarrow> nat \<Rightarrow> string \<Rightarrow> (string \<times> json) list \<Rightarrow> exn + json \<times> string"
  where
  "scan_once 0 py depth s = Inl out_of_fuel"
| "scan_once (Suc n) py depth s =
     (case s of
        [] \<Rightarrow> Inl JSONDecodeError
      | c # cs \<Rightarrow>
          if c = CHR 0x22 then
            (case scanstring n cs of
               Inl err \<Rightarrow> Inl err
             | Inr (str, rest) \<Rightarrow> Inr (JString str, rest))
          else if c = CHR ''{'' then
            (if depth = 0 then Inl (Exception ''RecursionError'')
             else if prefix ''}'' (skip_ws cs) then Inr (JObject [], drop 1 (skip_ws cs))
             else json_object n py (depth - 1) (skip_ws cs) [])
          else if c = CHR ''['' then
            (if depth = 0 then Inl (Exception ''RecursionError'')
             else if prefix '']'' (skip_ws cs) then Inr (JArray [], drop 1 (skip_ws cs))
             else json_array n py (depth - 1) (skip_ws cs) [])
          else scan_constant py s)"
| "json_array 0 py depth s acc = Inl out_of_fuel"
| "json_array (Suc n) py depth s acc =
     (case scan_once n py depth s of
        Inl err \<Rightarrow> Inl err
      | Inr (v, rest) \<Rightarrow>
          (case skip_ws rest of
             [] \<Rightarrow> Inl JSONDecodeError
           | d # ds \<Rightarrow>
               if d = CHR '']'' then Inr (JArray (acc @ [v]), ds)
               else if d = CHR '','' then json_array n py depth (skip_ws ds) (acc @ [v])
               else Inl JSONDecodeError))"
| "json_object 0 py depth s acc = Inl out_of_fuel"
| "json_object (Suc n) py depth s acc =
     (case s of
        [] \<Rightarrow> Inl JSONDecodeError
      | q # qs \<Rightarrow>
          if q \<noteq> CHR 0x22 then Inl JSONDecodeError
          else
            (case scanstring n qs of
               Inl err \<Rightarrow> Inl err
             | Inr (key, rest) \<Rightarrow>
                 (case skip_ws rest of
                    [] \<Rightarrow> Inl JSONDecodeError
                  | colon # after \<Rightarrow>
                      if colon \<noteq> CHR '':'' then Inl JSONDecodeError
                      else
                        (case scan_once n py depth (skip_ws after) of
                           Inl err \<Rightarrow> Inl err
                         | Inr (v, rest') \<Rightarrow>
                             (case skip_ws rest' of
                                [] \<Rightarrow> Inl JSONDecodeError
                              | d # ds \<Rightarrow>
                                  if d = CHR ''}'' then Inr (JObject (AList.update key v acc), ds)
                                  else if d = CHR '','' then
                                    json_object n py depth (skip_ws ds) (AList.update key v acc)
                                  else Inl JSONDecodeError)))))"

text \<open>
  \<^verbatim>\<open>json.loads\<close>: white space, one value, white space, and nothing after it.
\<close>

definition json_loads :: "interpreter \<Rightarrow> string \<Rightarrow> exn + json" where
  "json_loads py s =
     (case scan_once (2 * length s + 2) py (recursion_allowance py) (skip_ws s) of
        Inl err \<Rightarrow> Inl err
      | Inr (v, rest) \<Rightarrow> if skip_ws rest = [] then Inr v else Inl JSONDecodeError)"

text \<open>
  A scanner's result is within its budget for the text \<open>s\<close> when it is not the report of
  exhausted fuel and, where it is a value, the text left after it is shorter than \<open>s\<close>.
\<close>

definition in_budget :: "(exn + 'a \<times> string) \<Rightarrow> string \<Rightarrow> bool" where
  "in_budget res s =
     (res \<noteq> Inl out_of_fuel \<and>
      (case res of Inl e \<Rightarrow> True | Inr (v, r) \<Rightarrow> length r < length s))"

section \<open>Safety agent: the tools\<close>

text \<open>
  \<^verbatim>\<open>get_emergency_context\<close> (safety/server.py): the dict it returns, one record field per
  key. The clock reading \<^verbatim>\<open>datetime.now().strftime("%H:%M")\<close> is the argument \<open>now\<close>; the
  user id is not used.
\<close>

record contact =
  contact_name :: string
  phone :: string
  relation :: string
  preferred_method :: string

record emergency_context =
  user_name :: string
  current_time :: string
  location :: string
  emergency_contacts :: "contact list"
  medical_notes :: string

definition get_emergency_context :: "string \<Rightarrow> string \<Rightarrow> emergency_context" where
  "get_emergency_context now user_id =
     \<lparr>user_name = ''Grandpa Joe'',
      current_time = now,
      location = ''Home - 123 Maple St'',
      emergency_contacts =
        [\<lparr>contact_name = ''Tommy'', phone = ''555-0199'', relation = ''Grandson'',
          preferred_method = ''call''\<rparr>,
         \<lparr>contact_name = ''Dr. Smith'', phone = ''555-0900'', relation = ''Doctor'',
          preferred_method = ''message''\<rparr>],
      medical_notes = ''History of heart arrhythmia.''\<rparr>"

text \<open>
  \<^verbatim>\<open>analyze_safety\<close> (safety/server.py) returns a dict with the three keys
  \<^verbatim>\<open>is_safe\<close>, \<^verbatim>\<open>reason\<close> and \<^verbatim>\<open>response_suggestion\<close>; the record below has one field per key.
\<close>

record safety_verdict =
  is_safe :: bool
  reason :: string
  response_suggestion :: string

definition crisis_keywords :: "string list" where
  "crisis_keywords =
     [''fall'', ''fell'', ''chest pain'', ''hurt myself'', ''suicide'', ''emergency'',
      ''blood'', ''help me'']"

text \<open>
  The \<^verbatim>\<open>for word in crisis_keywords\<close> loop: the three variables are the fields of the
  verdict; the first keyword found in the lowered text overwrites them and the
  \<^verbatim>\<open>break\<close> ends the loop.
\<close>

fun crisis_scan :: "string list \<Rightarrow> string \<Rightarrow> safety_verdict \<Rightarrow> safety_verdict" where
  "crisis_scan [] text_lower v = v"
| "crisis_scan (word # rest) text_lower v =
     (if contains word text_lower
      then v\<lparr>is_safe := False,
             reason := ''Detected crisis keyword: '' @ word,
             response_suggestion :=
               ''I am concerned about what you just said. I am notifying your emergency contact immediately. Please stay on the line.''\<rparr>
      else crisis_scan rest text_lower v)"

definition analyze_safety :: "string \<Rightarrow> safety_verdict" where
  "analyze_safety text_in =
     crisis_scan crisis_keywords (lower text_in)
       \<lparr>is_safe = True, reason = ''User appears stable.'', response_suggestion = ''''\<rparr>"

text \<open>The two shapes a verdict of \<^const>\<open>analyze_safety\<close> has.\<close>

definition stable_verdict :: safety_verdict where
  "stable_verdict =
     \<lparr>is_safe = True, reason = ''User appears stable.'', response_suggestion = ''''\<rparr>"

definition crisis_verdict :: "string \<Rightarrow> safety_verdict" where
  "crisis_verdict word =
     \<lparr>is_safe = False,
      reason = ''Detected crisis keyword: '' @ word,
      response_suggestion =
        ''I am concerned about what you just said. I am notifying your emergency contact immediately. Please stay on the line.''\<rparr>"

section \<open>Safety agent: the ADK manager\<close>

text \<open>
  \<^verbatim>\<open>ADKManager.process_message\<close> runs the language model through the ADK runner. What the
  session service and the runner do is the environment's choice, given as an \<open>adk_run\<close> for
  the user id, the session id and the text: whether \<^verbatim>\<open>get_session\<close> raises (then
  \<^verbatim>\<open>create_session\<close> is called, and may raise itself), the steps the runner yields, and the
  exception that ends the run, if any. A step says whether it is a final response and gives
  the texts of its content parts (no part when it has no content; \<open>None\<close> for a part that is
  not text).
\<close>

record adk_step =
  is_final_response :: bool
  content_parts :: "string option list"

record adk_run =
  get_session_raises :: bool
  create_session_raises :: "exn option"
  run_steps :: "adk_step list"
  run_raises :: "exn option"

text \<open>
  The \<^verbatim>\<open>for step in steps\<close> loop: every final response with a part overwrites
  \<^verbatim>\<open>response_text\<close> with the text of its first part.
\<close>

fun final_text :: "adk_step list \<Rightarrow> string option \<Rightarrow> string option" where
  "final_text [] response_text = response_text"
| "final_text (step # steps) response_text =
     final_text steps
       (if is_final_response step
        then (case content_parts step of [] \<Rightarrow> response_text | part # parts \<Rightarrow> part)
        else response_text)"

text \<open>
  The reply \<^verbatim>\<open>process_message\<close> substitutes when the model gave no text: the text
  \<^verbatim>\<open>json.dumps\<close> writes for the dict with \<^verbatim>\<open>is_safe\<close> true, the reason
  \<^verbatim>\<open>Agent provided no output\<close> and an empty \<^verbatim>\<open>response_suggestion\<close>.
\<close>

definition no_output_reply :: string where
  \<open>no_output_reply =
     ''{"is_safe": true, "reason": "Agent provided no output", "response_suggestion": ""}''\<close>

definition process_message ::
  "(string \<Rightarrow> string \<Rightarrow> string \<Rightarrow> adk_run) \<Rightarrow> string \<Rightarrow> string \<Rightarrow> string \<Rightarrow> exn + string" where
  "process_message adk user_id session_id text_in =
     (let run = adk user_id session_id text_in in
      case (if get_session_raises run then create_session_raises run else None) of
        Some e \<Rightarrow> Inl e
      | None \<Rightarrow>
          (case run_raises run of
             Some e \<Rightarrow> Inl e
           | None \<Rightarrow>
               (case final_text (run_steps run) (Some '''') of
                  None \<Rightarrow> Inr no_output_reply
                | Some response_text \<Rightarrow>
                    if response_text = '''' then Inr no_output_reply else Inr response_text)))"

section \<open>Tasks, events and the request context\<close>

text \<open>
  The data of the a2a library the executors handle, with the fields the repository reads or
  writes. A part of a message or of an artifact is its text. An event queue is the list of
  the events enqueued so far; \<^verbatim>\<open>enqueue_event\<close> appends to it.
\<close>

datatype task_state = Submitted | Working | Completed | Failed | Canceled

record message =
  message_task_id :: "string option"
  message_context_id :: "string option"
  message_parts :: "string list"

record artifact =
  artifact_name :: string
  artifact_parts :: "string list"

record task =
  task_id :: string
  task_context_id :: string
  task_state :: task_state
  task_artifacts :: "artifact list"
  task_history :: "message list"

record status_update =
  update_task_id :: string
  update_context_id :: string
  update_state :: task_state
  update_message :: "string option"
  update_final :: bool

datatype event = Task_event task | Status_update_event status_update

record request_context =
  current_task :: "task option"
  request_message :: message
  request_task_id :: string
  request_context_id :: string
  user_input :: string

text \<open>
  Modelled from the spec: the a2a library's \<^verbatim>\<open>new_task\<close>, \<^verbatim>\<open>completed_task\<close>, \<^verbatim>\<open>new_artifact\<close>,
  \<^verbatim>\<open>RequestContext.get_user_input\<close> and \<^verbatim>\<open>TaskUpdater.update_status\<close> are not part of the
  repository. Section 4.1 of the spec gives their contracts: a new task is in state
  submitted, takes its context id from the triggering message and gets fresh ids otherwise;
  a completed task is a snapshot in state completed that carries the given artifacts and
  history; a status update with state failed and the final flag is the terminal failed
  event. Each call may also raise: the record \<open>sdk\<close> says which of them does, and holds the
  fresh ids.
\<close>

record sdk =
  new_task_raises :: "exn option"
  fresh_task_id :: string
  fresh_context_id :: string
  get_user_input_raises :: "exn option"
  completed_task_raises :: "exn option"

definition new_task :: "sdk \<Rightarrow> message \<Rightarrow> exn + task" where
  "new_task sdk msg =
     (case new_task_raises sdk of
        Some e \<Rightarrow> Inl e
      | None \<Rightarrow>
          Inr \<lparr>task_id = (case message_task_id msg of Some i \<Rightarrow> i | None \<Rightarrow> fresh_task_id sdk),
               task_context_id =
                 (case message_context_id msg of Some c \<Rightarrow> c | None \<Rightarrow> fresh_context_id sdk),
               task_state = Submitted,
               task_artifacts = [],
               task_history = [msg]\<rparr>)"

definition completed_task ::
  "sdk \<Rightarrow> string \<Rightarrow> string \<Rightarrow> artifact list \<Rightarrow> message list \<Rightarrow> exn + task" where
  "completed_task sdk tid cid arts hist =
     (case completed_task_raises sdk of
        Some e \<Rightarrow> Inl e
      | None \<Rightarrow>
          Inr \<lparr>task_id = tid, task_context_id = cid, task_state = Completed,
               task_artifacts = arts, task_history = hist\<rparr>)"

definition new_artifact :: "string list \<Rightarrow> string \<Rightarrow> artifact" where
  "new_artifact parts name = \<lparr>artifact_name = name, artifact_parts = parts\<rparr>"

definition get_user_input :: "sdk \<Rightarrow> request_context \<Rightarrow> exn + string" where
  "get_user_input sdk ctx =
     (case get_user_input_raises sdk of Some e \<Rightarrow> Inl e | None \<Rightarrow> Inr (user_input ctx))"

definition update_status ::
  "event list \<Rightarrow> string \<Rightarrow> string \<Rightarrow> task_state \<Rightarrow> string option \<Rightarrow> bool \<Rightarrow> event list" where
  "update_status q tid cid st msg fin =
     q @ [Status_update_event
            \<lparr>update_task_id = tid, update_context_id = cid, update_state = st,
             update_message = msg, update_final = fin\<rparr>]"

text \<open>
  A terminal event ends a task: a task in a terminal state, or a status update that is
  final or carries a terminal state.
\<close>

definition terminal_state :: "task_state \<Rightarrow> bool" where
  "terminal_state s = (s = Completed \<or> s = Failed \<or> s = Canceled)"

fun event_state :: "event \<Rightarrow> task_state" where
  "event_state (Task_event t) = task_state t"
| "event_state (Status_update_event u) = update_state u"

fun terminal_event :: "event \<Rightarrow> bool" where
  "terminal_event (Task_event t) = terminal_state (task_state t)"
| "terminal_event (Status_update_event u) = (update_final u \<or> terminal_state (update_state u))"

section \<open>The executors\<close>

text \<open>
  The first lines of both \<^verbatim>\<open>execute\<close> methods: the task of the request, or a new task that
  is enqueued.
\<close>

definition obtain_task :: "sdk \<Rightarrow> request_context \<Rightarrow> event list \<Rightarrow> exn + task \<times> event list" where
  "obtain_task sdk ctx q =
     (case current_task ctx of
        Some t \<Rightarrow> Inr (t, q)
      | None \<Rightarrow>
          (case new_task sdk (request_message ctx) of
             Inl e \<Rightarrow> Inl e
           | Inr t \<Rightarrow> Inr (t, q @ [Task_event t])))"

text \<open>
  \<^verbatim>\<open>SafetyExecutor.execute\<close> (safety/server.py). \<open>SafetyExecutor_try\<close> is the body of its
  \<^verbatim>\<open>try\<close>: it returns the queue as the body left it and the exception that ended it, if
  one did. \<open>SafetyExecutor_execute\<close> adds the \<^verbatim>\<open>except Exception\<close> handler and returns the
  queue.
\<close>

definition SafetyExecutor_try ::
  "sdk \<Rightarrow> (string \<Rightarrow> string \<Rightarrow> string \<Rightarrow> adk_run) \<Rightarrow> request_context \<Rightarrow> event list
     \<Rightarrow> event list \<times> exn option" where
  "SafetyExecutor_try sdk adk ctx q =
     (case obtain_task sdk ctx q of
        Inl e \<Rightarrow> (q, Some e)
      | Inr (t, q1) \<Rightarrow>
          (case get_user_input sdk ctx of
             Inl e \<Rightarrow> (q1, Some e)
           | Inr input \<Rightarrow>
               (case process_message adk ''default_user'' (request_context_id ctx) input of
                  Inl e \<Rightarrow> (q1, Some e)
                | Inr response_text \<Rightarrow>
                    (case completed_task sdk (task_id t) (task_context_id t)
                            [new_artifact [response_text] ''safety_analysis_result'']
                            [request_message ctx] of
                       Inl e \<Rightarrow> (q1, Some e)
                     | Inr completed \<Rightarrow> (q1 @ [Task_event completed], None)))))"

definition SafetyExecutor_execute ::
  "sdk \<Rightarrow> (string \<Rightarrow> string \<Rightarrow> string \<Rightarrow> adk_run) \<Rightarrow> (exn \<Rightarrow> string) \<Rightarrow> request_context
     \<Rightarrow> event list \<Rightarrow> event list" where
  "SafetyExecutor_execute sdk adk str_exn ctx q =
     (case SafetyExecutor_try sdk adk ctx q of
        (q', None) \<Rightarrow> q'
      | (q', Some e) \<Rightarrow>
          update_status q' (request_task_id ctx) (request_context_id ctx) Failed
            (Some (''Safety Analysis Failed: '' @ str_exn e)) True)"

definition SafetyExecutor_cancel :: "request_context \<Rightarrow> event list \<Rightarrow> exn + event list" where
  "SafetyExecutor_cancel ctx q = Inl (ServerError UnsupportedOperationError)"

text \<open>
  \<^verbatim>\<open>ConversationExecutor.generate_llm_response\<close> (conversation/server.py). \<open>llm_reply\<close> is the
  body of its \<^verbatim>\<open>try\<close>. The argument \<open>ollama\<close> is the model server: for the two values read
  from the payload, from which the prompt is built, it gives what
  \<^verbatim>\<open>requests.post\<close>, \<^verbatim>\<open>raise_for_status\<close> and \<^verbatim>\<open>resp.json()\<close> end in, an exception or the
  decoded body.
\<close>

definition llm_reply ::
  "(string \<Rightarrow> exn + json) \<Rightarrow> (json \<Rightarrow> json \<Rightarrow> exn + json) \<Rightarrow> string \<Rightarrow> exn + string" where
  "llm_reply loads ollama input_json =
     (case loads input_json of
        Inl e \<Rightarrow> Inl e
      | Inr data \<Rightarrow>
          (case dict_get data ''user_text'' (JString '''') of
             Inl e \<Rightarrow> Inl e
           | Inr user_text \<Rightarrow>
               (case dict_get data ''memory_context'' (JString '''') of
                  Inl e \<Rightarrow> Inl e
                | Inr memory \<Rightarrow>
                    (case ollama user_text memory of
                       Inl e \<Rightarrow> Inl e
                     | Inr reply \<Rightarrow>
                         (case dict_get reply ''response'' (JString '''') of
                            Inl e \<Rightarrow> Inl e
                          | Inr (JString r) \<Rightarrow>
                              Inr (if strip r = '''' then ''[Warm Tone] I'm here with you.''
                                   else strip r)
                          | Inr other \<Rightarrow> Inl (Exception ''AttributeError''))))))"

definition generate_llm_response ::
  "(string \<Rightarrow> exn + json) \<Rightarrow> (json \<Rightarrow> json \<Rightarrow> exn + json) \<Rightarrow> string \<Rightarrow> string" where
  "generate_llm_response loads ollama input_json =
     (case llm_reply loads ollama input_json of
        Inr response \<Rightarrow> response
      | Inl JSONDecodeError \<Rightarrow> ''[Warm Tone] I hear you saying: '' @ input_json
      | Inl e \<Rightarrow> ''[Warm Tone] I'm here with you. Tell me more, dear.'')"

text \<open>\<^verbatim>\<open>ConversationExecutor.execute\<close> and \<^verbatim>\<open>cancel\<close> (conversation/server.py).\<close>

definition ConversationExecutor_try ::
  "sdk \<Rightarrow> (string \<Rightarrow> exn + json) \<Rightarrow> (json \<Rightarrow> json \<Rightarrow> exn + json) \<Rightarrow> request_context
     \<Rightarrow> event list \<Rightarrow> event list \<times> exn option" where
  "ConversationExecutor_try sdk loads ollama ctx q =
     (case obtain_task sdk ctx q of
        Inl e \<Rightarrow> (q, Some e)
      | Inr (t, q1) \<Rightarrow>
          (case get_user_input sdk ctx of
             Inl e \<Rightarrow> (q1, Some e)
           | Inr input \<Rightarrow>
               (case completed_task sdk (task_id t) (task_context_id t)
                       [new_artifact [generate_llm_response loads ollama input] ''response'']
                       [request_message ctx] of
                  Inl e \<Rightarrow> (q1, Some e)
                | Inr completed \<Rightarrow> (q1 @ [Task_event completed], None))))"

definition ConversationExecutor_execute ::
  "sdk \<Rightarrow> (string \<Rightarrow> exn + json) \<Rightarrow> (json \<Rightarrow> json \<Rightarrow> exn + json) \<Rightarrow> request_context
     \<Rightarrow> event list \<Rightarrow> event list" where
  "ConversationExecutor_execute sdk loads ollama ctx q =
     (case ConversationExecutor_try sdk loads ollama ctx q of
        (q', None) \<Rightarrow> q'
      | (q', Some e) \<Rightarrow>
          update_status q' (request_task_id ctx) (request_context_id ctx) Failed None True)"

definition ConversationExecutor_cancel :: "request_context \<Rightarrow> event list \<Rightarrow> exn + event list" where
  "ConversationExecutor_cancel ctx q = Inl (ServerError UnsupportedOperationError)"

section \<open>The orchestrator\<close>

text \<open>
  \<^verbatim>\<open>call_a2a_agent\<close> (orchestrator/agent.py). The network is the argument \<open>net\<close>: for an
  agent address and a message it gives the exception the call ends in, or the chunks the
  client yields. A chunk is the list of its parts, or \<open>None\<close> when it has no attribute
  \<^verbatim>\<open>parts\<close>; a part has its text under \<^verbatim>\<open>root\<close>, or directly, or has none. The result is the
  dict the function returns, as the list of its keys and values.
\<close>

datatype a2a_part = Root_text string | Plain_text string | No_text

fun part_text :: "a2a_part \<Rightarrow> string" where
  "part_text (Root_text t) = t"
| "part_text (Plain_text t) = t"
| "part_text No_text = ''''"

definition call_a2a_agent ::
  "(string \<Rightarrow> string \<Rightarrow> exn + a2a_part list option list) \<Rightarrow> (exn \<Rightarrow> string) \<Rightarrow> string \<Rightarrow> string
     \<Rightarrow> (string \<times> string) list" where
  "call_a2a_agent net str_exn agent_url message_text =
     (case net agent_url message_text of
        Inl e \<Rightarrow> [(''status'', ''error''), (''error'', str_exn e)]
      | Inr chunks \<Rightarrow>
          (if chunks = [] then [(''status'', ''error''), (''error'', ''No response'')]
           else [(''status'', ''success''),
                 (''response_text'',
                    case last chunks of
                      None \<Rightarrow> ''''
                    | Some parts \<Rightarrow> concat (map part_text parts))]))"

text \<open>\<^verbatim>\<open>result.get(key, default)\<close> on that dict.\<close>

definition result_get :: "(string \<times> string) list \<Rightarrow> string \<Rightarrow> string \<Rightarrow> string" where
  "result_get result k dflt = (case map_of result k of Some v \<Rightarrow> v | None \<Rightarrow> dflt)"

text \<open>
  \<^verbatim>\<open>check_safety\<close> (orchestrator/agent.py): the decoded reply of the safety agent; a decode
  error is caught and replaced, any other exception leaves the function. \<^verbatim>\<open>asyncio.run\<close> is
  taken to return what the coroutine returns.
\<close>

definition check_safety ::
  "(string \<Rightarrow> exn + json) \<Rightarrow> (string \<Rightarrow> string \<Rightarrow> exn + a2a_part list option list)
     \<Rightarrow> (exn \<Rightarrow> string) \<Rightarrow> string \<Rightarrow> exn + json" where
  "check_safety loads net str_exn user_text =
     (let result = call_a2a_agent net str_exn ''http://safety-agent:8080'' user_text in
      case loads (result_get result ''response_text'' ''{}'') of
        Inr safety_data \<Rightarrow> Inr safety_data
      | Inl JSONDecodeError \<Rightarrow>
          Inr (JObject [(''is_safe'', JBool True),
                        (''reason'', JString ''Parse error, assuming safe'')])
      | Inl e \<Rightarrow> Inl e)"

section \<open>What a run of an executor emitted\<close>

text \<open>
  The events a failed request must leave: exactly one terminal event, the last one, in state
  failed, and no event in state completed.
\<close>

definition one_failed_terminal :: "event list \<Rightarrow> bool" where
  "one_failed_terminal out =
     (length (filter terminal_event out) = 1 \<and>
      out \<noteq> [] \<and> terminal_event (last out) \<and> event_state (last out) = Failed \<and>
      \<not> list_ex (\<lambda>ev. event_state ev = Completed) out)"

text \<open>
  Processing raises when a call in the body of \<^verbatim>\<open>execute\<close> does. The Safety executor calls
  \<^verbatim>\<open>new_task\<close> (when the request has no task), \<^verbatim>\<open>get_user_input\<close>, \<^verbatim>\<open>process_message\<close> (in
  which \<^verbatim>\<open>create_session\<close> may raise after \<^verbatim>\<open>get_session\<close> has, and the run of the model may
  raise) and \<^verbatim>\<open>completed_task\<close>. The Conversation executor calls \<^verbatim>\<open>new_task\<close>,
  \<^verbatim>\<open>get_user_input\<close> and \<^verbatim>\<open>completed_task\<close>; \<^verbatim>\<open>generate_llm_response\<close> catches what its own
  calls raise.
\<close>

definition safety_processing_raises ::
  "sdk \<Rightarrow> (string \<Rightarrow> string \<Rightarrow> string \<Rightarrow> adk_run) \<Rightarrow> request_context \<Rightarrow> bool" where
  "safety_processing_raises sdk adk ctx =
     (let run = adk ''default_user'' (request_context_id ctx) (user_input ctx) in
      (current_task ctx = None \<and> new_task_raises sdk \<noteq> None) \<or>
      get_user_input_raises sdk \<noteq> None \<or>
      (get_session_raises run \<and> create_session_raises run \<noteq> None) \<or>
      run_raises run \<noteq> None \<or>
      completed_task_raises sdk \<noteq> None)"

definition conversation_processing_raises :: "sdk \<Rightarrow> request_context \<Rightarrow> bool" where
  "conversation_processing_raises sdk ctx =
     ((current_task ctx = None \<and> new_task_raises sdk \<noteq> None) \<or>
      get_user_input_raises sdk \<noteq> None \<or>
      completed_task_raises sdk \<noteq> None)"

section \<open>Concrete environments and requests\<close>

text \<open>
  The inputs the closed theorems run the code on: an interpreter with the default limits of
  CPython (a recursion limit of 1000 frames, of which a call of \<^verbatim>\<open>json.loads\<close> at the top
  level of a program leaves 994 to the scanner, and 4300 digits), exceptions whose text is
  their label, a library in which no call raises, two requests without a task, a runner
  whose model ends with a part that is not text, a runner that raises, a runner whose model
  answers a confirmation with an action and a method, a network that delivers one chunk
  with the given reply, a reply of the safety agent that is JSON, and a model server that
  cannot be reached.
\<close>

definition cpython :: interpreter where
  "cpython = \<lparr>recursion_allowance = 994, int_max_str_digits = 4300\<rparr>"

definition str_label :: "exn \<Rightarrow> string" where
  "str_label e = (case e of Exception label \<Rightarrow> label | _ \<Rightarrow> [])"

definition sdk_ok :: sdk where
  "sdk_ok =
     \<lparr>new_task_raises = None, fresh_task_id = ''task-1'', fresh_context_id = ''ctx-1'',
      get_user_input_raises = None, completed_task_raises = None\<rparr>"

definition fell_request :: request_context where
  "fell_request =
     \<lparr>current_task = None,
      request_message =
        \<lparr>message_task_id = None, message_context_id = Some ''ctx-7'',
         message_parts = [''I think I fell down and I am in a lot of pain.'']\<rparr>,
      request_task_id = ''task-1'', request_context_id = ''ctx-7'',
      user_input = ''I think I fell down and I am in a lot of pain.''\<rparr>"

definition silent_run :: "string \<Rightarrow> string \<Rightarrow> string \<Rightarrow> adk_run" where
  "silent_run user_id session_id text_in =
     \<lparr>get_session_raises = False, create_session_raises = None,
      run_steps = [\<lparr>is_final_response = True, content_parts = [None]\<rparr>],
      run_raises = None\<rparr>"

definition failing_run :: "string \<Rightarrow> string \<Rightarrow> string \<Rightarrow> adk_run" where
  "failing_run user_id session_id text_in =
     \<lparr>get_session_raises = False, create_session_raises = None, run_steps = [],
      run_raises = Some (Exception ''model endpoint unreachable'')\<rparr>"

definition net_reply :: "string \<Rightarrow> string \<Rightarrow> string \<Rightarrow> exn + a2a_part list option list" where
  "net_reply reply agent_url message_text = Inr [Some [Root_text reply]]"

definition crisis_reply :: string where
  \<open>crisis_reply = ''{"is_safe": false, "reason": "Detected crisis keyword: fell"}''\<close>

definition ollama_down :: "json \<Rightarrow> json \<Rightarrow> exn + json" where
  "ollama_down user_text memory = Inl (Exception ''connection refused'')"

definition confirm_request :: request_context where
  "confirm_request =
     \<lparr>current_task = None,
      request_message =
        \<lparr>message_task_id = None, message_context_id = Some ''ctx-7'',
         message_parts = [''yes please help'']\<rparr>,
      request_task_id = ''task-2'', request_context_id = ''ctx-7'',
      user_input = ''yes please help''\<rparr>"

definition confirmed_reply :: string where
  \<open>confirmed_reply =
     ''{"riskLevel": "HIGH", "action": "execute_action", "method": "message"}''\<close>

definition confirming_run :: "string \<Rightarrow> string \<Rightarrow> string \<Rightarrow> adk_run" where
  "confirming_run user_id session_id text_in =
     \<lparr>get_session_raises = False, create_session_raises = None,
      run_steps = [\<lparr>is_final_response = True, content_parts = [Some confirmed_reply]\<rparr>],
      run_raises = None\<rparr>"

section \<open>Properties of the strings\<close>

text \<open>The byte sequences \<^verbatim>\<open>strip\<close> removes are the encodings of the listed code points.\<close>

lemma py_spaces_utf8: "py_spaces = map utf8 py_space_points"
  by (simp add: py_spaces_def py_space_points_def utf8_def char_of_def bit_Suc_0_iff)

lemma strip_ascii: "strip ''  Take a deep breath.  '' = ''Take a deep breath.''"
  by code_simp

lemma strip_unicode:
  "strip ([CHR 0xC2, CHR 0xA0] @ ''x y'' @ [CHR 0xE3, CHR 0x80, CHR 0x80, CHR 0x0A]) = ''x y''"
  by code_simp

section \<open>Properties of the decoder\<close>

text \<open>
  The number pattern on the edges of its grammar: a full lexeme, a leading zero, a point or
  an exponent with no digit after it, a sign with no digit, a capital exponent.
\<close>

lemma match_number_full:
  "match_number ''-12.50e+3x'' = Some (''-12.50e+3'', ''x'')"
  by code_simp

lemma match_number_leading_zero:
  "match_number ''0123'' = Some (''0'', ''123'')"
  by code_simp

lemma match_number_bare_point:
  "match_number ''1.e5'' = Some (''1'', ''.e5'')"
  by code_simp

lemma match_number_bare_exponent:
  "match_number ''1e-'' = Some (''1'', ''e-'')"
  by code_simp

lemma match_number_bare_sign:
  "match_number ''-x'' = None"
  by code_simp

lemma match_number_capital_exponent:
  "match_number ''7E2]'' = Some (''7E2'', '']'')"
  by code_simp

text \<open>
  Every scanner consumes text: what is left after a value is shorter than what it was given.
  So the budget \<open>json_loads\<close> hands out is never exhausted.
\<close>

lemma out_of_fuel_neq [simp]:
  "JSONDecodeError \<noteq> out_of_fuel"
  "Exception ''RecursionError'' \<noteq> out_of_fuel"
  "Exception ''ValueError'' \<noteq> out_of_fuel"
  by (simp_all add: out_of_fuel_def)

lemma in_budget_Inl [simp]: "in_budget (Inl e) s \<longleftrightarrow> e \<noteq> out_of_fuel"
  by (simp add: in_budget_def)

lemma in_budget_Inr [simp]: "in_budget (Inr (v, r)) s \<longleftrightarrow> length r < length s"
  by (simp add: in_budget_def)

lemma length_skip_ws: "length (skip_ws s) \<le> length s"
  by (simp add: skip_ws_def length_dropWhile_le)

lemma hex4_rest: "hex4 s = Some (v, r) \<Longrightarrow> length s = length r + 4"
  by (auto simp: hex4_def split: list.splits option.splits)

lemma unicode_escape_rest:
  assumes "unicode_escape s = Some (b, r)"
  shows "length r + 4 \<le> length s"
proof -
  from assms obtain uni rest where h: "hex4 s = Some (uni, rest)"
    by (auto simp: unicode_escape_def split: option.splits)
  from hex4_rest[OF h] have l: "length s = length rest + 4" .
  show ?thesis
  proof (cases "r = rest")
    case True
    with l show ?thesis by simp
  next
    case False
    with assms h obtain uni2 where "hex4 (drop 2 rest) = Some (uni2, r)"
      by (auto simp: unicode_escape_def split: option.splits if_splits)
    from hex4_rest[OF this] l show ?thesis by simp
  qed
qed

lemma scanstring_budget:
  "length s < n \<Longrightarrow> in_budget (scanstring n s) (c # s)"
proof (induction n s arbitrary: c rule: scanstring.induct)
  case (1 s)
  then show ?case by simp
next
  case (2 n)
  then show ?case by simp
next
  case (3 n d ds)
  show ?case
  proof (cases "d = CHR 0x22")
    case True
    then show ?thesis by simp
  next
    case nq: False
    show ?thesis
    proof (cases "d = CHR 0x5C")
      case True
      show ?thesis
      proof (cases ds)
        case Nil
        with True nq show ?thesis by simp
      next
        case (Cons e es)
        show ?thesis
        proof (cases "e = CHR ''u''")
          case u: True
          show ?thesis
          proof (cases "unicode_escape es")
            case None
            with True nq Cons u show ?thesis by simp
          next
            case (Some p)
            obtain bytes rest where p: "p = (bytes, rest)" by (cases p)
            from unicode_escape_rest[of es bytes rest] Some p
            have l: "length rest + 4 \<le> length es" by simp
            with "3.prems" Cons have "length rest < n" by simp
            from "3.IH"(1)[OF nq True Cons u Some p[symmetric] this, of d]
            have "in_budget (scanstring n rest) (d # rest)" .
            with True nq Cons u Some p l show ?thesis
              by (auto simp: in_budget_def split: sum.splits)
          qed
        next
          case nu: False
          show ?thesis
          proof (cases "unescape e")
            case None
            with True nq Cons nu show ?thesis by simp
          next
            case (Some ch)
            from "3.prems" Cons have "length es < n" by simp
            from "3.IH"(2)[OF nq True Cons nu Some this, of d]
            have "in_budget (scanstring n es) (d # es)" .
            with True nq Cons nu Some show ?thesis
              by (auto simp: in_budget_def split: sum.splits)
          qed
        qed
      qed
    next
      case nb: False
      show ?thesis
      proof (cases "d < CHR '' ''")
        case True
        with nq nb show ?thesis by simp
      next
        case False
        from "3.prems" have "length ds < n" by simp
        from "3.IH"(3)[OF nq nb False this, of d]
        have "in_budget (scanstring n ds) (d # ds)" .
        with nq nb False show ?thesis
          by (auto simp: in_budget_def split: sum.splits)
      qed
    qed
  qed
qed

lemma dropWhile_digit_le: "length (dropWhile is_digit xs) \<le> length xs"
  by (simp add: length_dropWhile_le)

lemma match_int_rest: "match_int s = Some (i, r) \<Longrightarrow> length r < length s"
  using dropWhile_digit_le
  by (auto simp: match_int_def less_Suc_eq_le split: list.splits if_splits)

lemma match_frac_rest: "match_frac s = (f, r) \<Longrightarrow> length r \<le> length s"
proof (cases s)
  case Nil
  then show "match_frac s = (f, r) \<Longrightarrow> length r \<le> length s"
    by (simp add: match_frac_def)
next
  case (Cons p t)
  assume a: "match_frac s = (f, r)"
  show "length r \<le> length s"
  proof (cases t)
    case Nil
    with Cons a show ?thesis by (simp add: match_frac_def)
  next
    case c2: (Cons d fs)
    have "length (dropWhile is_digit fs) \<le> length fs" by (rule dropWhile_digit_le)
    with Cons c2 a show ?thesis
      by (auto simp: match_frac_def split: if_splits)
  qed
qed

lemma match_exp_rest: "match_exp s = (x, r) \<Longrightarrow> length r \<le> length s"
proof (cases s)
  case Nil
  then show "match_exp s = (x, r) \<Longrightarrow> length r \<le> length s"
    by (simp add: match_exp_def)
next
  case (Cons e es)
  assume a: "match_exp s = (x, r)"
  define sign where "sign = (if prefix ''+'' es \<or> prefix ''-'' es then take 1 es else [])"
  define ds where "ds = drop (length sign) es"
  have "length (dropWhile is_digit ds) \<le> length ds"
    by (rule dropWhile_digit_le)
  moreover have "length ds \<le> length es"
    by (simp add: ds_def)
  ultimately have 1: "length (dropWhile is_digit ds) \<le> length es"
    by (rule le_trans)
  have "r = s \<or> r = dropWhile is_digit ds"
    using a Cons by (auto simp: match_exp_def Let_def sign_def ds_def split: if_splits)
  with 1 Cons show "length r \<le> length s"
    by auto
qed

lemma match_number_rest:
  assumes "match_number s = Some (lx, r)"
  shows "length r < length s"
proof -
  define s1 where "s1 = drop (length (if prefix ''-'' s then ''-'' else [])) s"
  have l1: "length s1 \<le> length s"
    by (simp add: s1_def)
  from assms obtain i s2 where i: "match_int s1 = Some (i, s2)"
    by (auto simp: match_number_def Let_def s1_def split: option.splits)
  obtain f s3 where f: "match_frac s2 = (f, s3)" by (cases "match_frac s2")
  obtain x s4 where x: "match_exp s3 = (x, s4)" by (cases "match_exp s3")
  from assms i f x have "r = s4"
    by (simp add: match_number_def Let_def s1_def)
  with l1 match_int_rest[OF i] match_frac_rest[OF f] match_exp_rest[OF x]
  show ?thesis by simp
qed

lemma in_budget_mono:
  "in_budget res s' \<Longrightarrow> length s' \<le> length s \<Longrightarrow> in_budget res s"
  by (auto simp: in_budget_def split: sum.splits)

lemma in_budget_string:
  "in_budget res s \<Longrightarrow>
   in_budget (case res of Inl err \<Rightarrow> Inl err | Inr (str, rest) \<Rightarrow> Inr (JString str, rest)) s"
  by (auto simp: in_budget_def split: sum.splits)

lemma scan_constant_budget:
  assumes "s \<noteq> []"
  shows "in_budget (scan_constant py s) s"
proof -
  have d: "\<And>k. 0 < k \<Longrightarrow> length (drop k s) < length s"
    using assms by simp
  show ?thesis
  proof (cases "match_number s")
    case None
    with d show ?thesis
      by (simp add: scan_constant_def)
  next
    case (Some p)
    obtain lx r where p: "p = (lx, r)" by (cases p)
    from match_number_rest[of s lx r] Some p have "length r < length s" by simp
    with Some p d show ?thesis
      by (simp add: scan_constant_def)
  qed
qed

lemma scan_once_step:
  assumes A: "\<And>t acc dp. 2 * length t + 2 \<le> n \<Longrightarrow> in_budget (json_array n py dp t acc) t"
    and O: "\<And>t acc dp. 2 * length t + 2 \<le> n \<Longrightarrow> in_budget (json_object n py dp t acc) t"
    and n: "2 * length s + 1 \<le> Suc n"
  shows "in_budget (scan_once (Suc n) py dp s) s"
proof (cases s)
  case Nil
  then show ?thesis by simp
next
  case (Cons c cs)
  from n Cons have n2: "2 * length cs + 2 \<le> n" by simp
  have sk: "length (skip_ws cs) \<le> length cs" by (rule length_skip_ws)
  from n2 sk have n3: "2 * length (skip_ws cs) + 2 \<le> n" by simp
  from sk Cons have sk': "length (skip_ws cs) \<le> length s" by simp
  consider (str) "c = CHR 0x22"
    | (obj) "c \<noteq> CHR 0x22" "c = CHR ''{''"
    | (arr) "c \<noteq> CHR 0x22" "c \<noteq> CHR ''{''" "c = CHR ''[''"
    | (lit) "c \<noteq> CHR 0x22" "c \<noteq> CHR ''{''" "c \<noteq> CHR ''[''"
    by blast
  then show ?thesis
  proof cases
    case str
    from n2 have "length cs < n" by simp
    from scanstring_budget[OF this, of c] have "in_budget (scanstring n cs) s"
      using Cons by simp
    from in_budget_string[OF this] str Cons show ?thesis by simp
  next
    case obj
    show ?thesis
    proof (cases "prefix ''}'' (skip_ws cs)")
      case True
      then have "skip_ws cs \<noteq> []" by auto
      then have "length (drop 1 (skip_ws cs)) < length (skip_ws cs)" by simp
      with sk' have "length (drop 1 (skip_ws cs)) < length s" by simp
      with obj Cons True show ?thesis by simp
    next
      case False
      from in_budget_mono[OF O[OF n3, of "dp - 1" "[]"] sk'] obj Cons False
      show ?thesis by simp
    qed
  next
    case arr
    show ?thesis
    proof (cases "prefix '']'' (skip_ws cs)")
      case True
      then have "skip_ws cs \<noteq> []" by auto
      then have "length (drop 1 (skip_ws cs)) < length (skip_ws cs)" by simp
      with sk' have "length (drop 1 (skip_ws cs)) < length s" by simp
      with arr Cons True show ?thesis by simp
    next
      case False
      from in_budget_mono[OF A[OF n3, of "dp - 1" "[]"] sk'] arr Cons False
      show ?thesis by simp
    qed
  next
    case lit
    from scan_constant_budget[of s py] Cons have "in_budget (scan_constant py s) s" by simp
    with lit Cons show ?thesis by simp
  qed
qed

lemma in_budget_InrD: "in_budget (Inr (v, r)) s \<Longrightarrow> length r < length s"
  by simp

lemma json_array_step:
  assumes S: "\<And>t dp. 2 * length t + 1 \<le> n \<Longrightarrow> in_budget (scan_once n py dp t) t"
    and A: "\<And>t acc dp. 2 * length t + 2 \<le> n \<Longrightarrow> in_budget (json_array n py dp t acc) t"
    and n: "2 * length s + 2 \<le> Suc n"
  shows "in_budget (json_array (Suc n) py dp s acc) s"
proof -
  from n have "2 * length s + 1 \<le> n" by simp
  from S[OF this] have b: "in_budget (scan_once n py dp s) s" .
  show ?thesis
  proof (cases "scan_once n py dp s")
    case (Inl e)
    with b show ?thesis by (simp add: in_budget_def)
  next
    case (Inr p)
    obtain v rest where p: "p = (v, rest)" by (cases p)
    from b Inr p have r: "length rest < length s" by simp
    have sk: "length (skip_ws rest) \<le> length rest" by (rule length_skip_ws)
    show ?thesis
    proof (cases "skip_ws rest")
      case Nil
      with Inr p show ?thesis by simp
    next
      case (Cons d ds)
      from Cons sk r have ds: "length ds + 2 \<le> length s" by simp
      have sk2: "length (skip_ws ds) \<le> length ds" by (rule length_skip_ws)
      from ds sk2 n have "2 * length (skip_ws ds) + 2 \<le> n" by simp
      from A[OF this, of dp "acc @ [v]"] have "in_budget (json_array n py dp (skip_ws ds) (acc @ [v])) (skip_ws ds)" .
      moreover from sk2 ds have "length (skip_ws ds) \<le> length s" by simp
      ultimately have rec: "in_budget (json_array n py dp (skip_ws ds) (acc @ [v])) s"
        by (rule in_budget_mono)
      from ds have "length ds < length s" by simp
      with Inr p Cons rec show ?thesis by simp
    qed
  qed
qed

lemma json_object_step:
  assumes S: "\<And>t dp. 2 * length t + 1 \<le> n \<Longrightarrow> in_budget (scan_once n py dp t) t"
    and O: "\<And>t acc dp. 2 * length t + 2 \<le> n \<Longrightarrow> in_budget (json_object n py dp t acc) t"
    and n: "2 * length s + 2 \<le> Suc n"
  shows "in_budget (json_object (Suc n) py dp s acc) s"
proof (cases s)
  case Nil
  then show ?thesis by simp
next
  case (Cons q qs)
  show ?thesis
  proof (cases "q = CHR 0x22")
    case False
    with Cons show ?thesis by simp
  next
    case True
    from n Cons have "length qs < n" by simp
    from scanstring_budget[OF this, of q] have b1: "in_budget (scanstring n qs) s"
      using Cons by simp
    show ?thesis
    proof (cases "scanstring n qs")
      case (Inl e)
      with b1 Cons True show ?thesis by (simp add: in_budget_def)
    next
      case (Inr p)
      obtain key rest where p: "p = (key, rest)" by (cases p)
      from b1 Inr p have r: "length rest < length s" by simp
      have sk: "length (skip_ws rest) \<le> length rest" by (rule length_skip_ws)
      show ?thesis
      proof (cases "skip_ws rest")
        case Nil
        with Cons True Inr p show ?thesis by simp
      next
        case c2: (Cons colon after)
        show ?thesis
        proof (cases "colon = CHR '':''")
          case False
          with Cons True Inr p c2 show ?thesis by simp
        next
          case col: True
          from c2 sk r have af: "length after + 2 \<le> length s" by simp
          have sk2: "length (skip_ws after) \<le> length after" by (rule length_skip_ws)
          from af sk2 n have "2 * length (skip_ws after) + 1 \<le> n" by simp
          from S[OF this] have b2: "in_budget (scan_once n py dp (skip_ws after)) (skip_ws after)" .
          show ?thesis
          proof (cases "scan_once n py dp (skip_ws after)")
            case (Inl e)
            with b2 Cons True Inr p c2 col show ?thesis by (simp add: in_budget_def)
          next
            case i2: (Inr p2)
            obtain v rest' where p2: "p2 = (v, rest')" by (cases p2)
            from b2 i2 p2 have "length rest' < length (skip_ws after)" by simp
            with sk2 af have r': "length rest' + 3 \<le> length s" by simp
            have sk3: "length (skip_ws rest') \<le> length rest'" by (rule length_skip_ws)
            show ?thesis
            proof (cases "skip_ws rest'")
              case Nil
              with Cons True Inr p c2 col i2 p2 show ?thesis by simp
            next
              case c3: (Cons d ds)
              from c3 sk3 r' have ds: "length ds + 4 \<le> length s" by simp
              have sk4: "length (skip_ws ds) \<le> length ds" by (rule length_skip_ws)
              from ds sk4 n have "2 * length (skip_ws ds) + 2 \<le> n" by simp
              from O[OF this, of dp "AList.update key v acc"]
              have "in_budget (json_object n py dp (skip_ws ds) (AList.update key v acc)) (skip_ws ds)" .
              moreover from sk4 ds have "length (skip_ws ds) \<le> length s" by simp
              ultimately have rec:
                "in_budget (json_object n py dp (skip_ws ds) (AList.update key v acc)) s"
                by (rule in_budget_mono)
              from ds have "length ds < length s" by simp
              with Cons True Inr p c2 col i2 p2 c3 rec show ?thesis by simp
            qed
          qed
        qed
      qed
    qed
  qed
qed

text \<open>
  The three scanners together, by induction on the fuel: a value needs two units for each
  character of its text and one more, a container two more.
\<close>

lemma decoder_budget:
  "(\<forall>s dp. 2 * length s + 1 \<le> n \<longrightarrow> in_budget (scan_once n py dp s) s) \<and>
   (\<forall>s acc dp. 2 * length s + 2 \<le> n \<longrightarrow> in_budget (json_array n py dp s acc) s) \<and>
   (\<forall>s acc dp. 2 * length s + 2 \<le> n \<longrightarrow> in_budget (json_object n py dp s acc) s)"
proof (induction n)
  case 0
  then show ?case by simp
next
  case (Suc n)
  then have S: "\<And>t dp. 2 * length t + 1 \<le> n \<Longrightarrow> in_budget (scan_once n py dp t) t"
    and A: "\<And>t acc dp. 2 * length t + 2 \<le> n \<Longrightarrow> in_budget (json_array n py dp t acc) t"
    and O: "\<And>t acc dp. 2 * length t + 2 \<le> n \<Longrightarrow> in_budget (json_object n py dp t acc) t"
    by blast+
  show ?case
  proof (intro conjI allI impI)
    fix s :: string and dp :: nat assume "2 * length s + 1 \<le> Suc n"
    with A O show "in_budget (scan_once (Suc n) py dp s) s" by (rule scan_once_step)
  next
    fix s :: string and acc :: "json list" and dp :: nat assume "2 * length s + 2 \<le> Suc n"
    with S A show "in_budget (json_array (Suc n) py dp s acc) s" by (rule json_array_step)
  next
    fix s :: string and acc :: "(string \<times> json) list" and dp :: nat assume "2 * length s + 2 \<le> Suc n"
    with S O show "in_budget (json_object (Suc n) py dp s acc) s" by (rule json_object_step)
  qed
qed

lemma json_loads_in_budget: "json_loads py s \<noteq> Inl out_of_fuel"
proof -
  have "length (skip_ws s) \<le> length s" by (rule length_skip_ws)
  then have "2 * length (skip_ws s) + 1 \<le> 2 * length s + 2" by simp
  with decoder_budget[of "2 * length s + 2" py]
  have "in_budget (scan_once (2 * length s + 2) py (recursion_allowance py) (skip_ws s)) (skip_ws s)" by blast
  then show ?thesis
    by (auto simp: json_loads_def in_budget_def split: sum.splits)
qed

text \<open>
  A text of opening brackets alone. With room for all of them the scanner reaches the end of
  the text and reports a decode error; with less room it raises a \<^verbatim>\<open>RecursionError\<close> at the
  first bracket beyond the allowance.
\<close>

lemma skip_ws_brackets [simp]: "skip_ws (replicate k (CHR ''['')) = replicate k (CHR ''['')"
  by (cases k) (simp_all add: skip_ws_def json_ws_def)

lemma scan_once_deep_array:
  "d < k \<Longrightarrow> 2 * d + 1 \<le> n \<Longrightarrow>
   scan_once n py d (replicate k (CHR ''['')) = Inl (Exception ''RecursionError'')"
proof (induction d arbitrary: n k)
  case 0
  then obtain n' k' where "n = Suc n'" "k = Suc k'"
    by (cases n; cases k) auto
  then show ?case by simp
next
  case (Suc d)
  define n' k' where "n' = n - 2" and "k' = k - 2"
  with Suc.prems have nk: "n = Suc (Suc n')" "k = Suc (Suc k')" by simp_all
  with Suc.prems have "d < Suc k'" "2 * d + 1 \<le> n'" by simp_all
  from Suc.IH[OF this]
  have "scan_once n' py d (replicate (Suc k') (CHR ''['')) = Inl (Exception ''RecursionError'')" .
  moreover have "skip_ws (CHR ''['' # replicate k' (CHR ''['')) = CHR ''['' # replicate k' (CHR ''['')"
    using skip_ws_brackets[of "Suc k'"] by simp
  ultimately show ?case using nk by simp
qed


lemma json_loads_deep_array:
  assumes "recursion_allowance py < k"
  shows "json_loads py (replicate k (CHR ''['')) = Inl (Exception ''RecursionError'')"
proof -
  from assms have "2 * recursion_allowance py + 1 \<le> 2 * length (replicate k (CHR ''['')) + 2"
    by simp
  from scan_once_deep_array[OF assms this, of py] show ?thesis
    by (simp add: json_loads_def)
qed


text \<open>
  An integer of more digits than the interpreter converts: the text is JSON, and the
  decoder raises a \<^verbatim>\<open>ValueError\<close>.
\<close>

lemma match_number_ones:
  "match_number (replicate (Suc k) (CHR ''1'')) = Some (replicate (Suc k) (CHR ''1''), [])"
proof -
  have d: "is_digit (CHR ''1'')" by (simp add: is_digit_def)
  have t: "takeWhile is_digit (replicate k (CHR ''1'')) = replicate k (CHR ''1'')"
    using d by (simp add: takeWhile_eq_all_conv)
  have dr: "dropWhile is_digit (replicate k (CHR ''1'')) = []"
    using d by (simp add: dropWhile_eq_Nil_conv)
  have "match_int (replicate (Suc k) (CHR ''1'')) = Some (replicate (Suc k) (CHR ''1''), [])"
    using d t dr by (simp add: match_int_def)
  then show ?thesis
    by (simp add: match_number_def match_frac_def match_exp_def)
qed

lemma json_loads_long_integer:
  assumes "640 < k" and "0 < int_max_str_digits py" and "int_max_str_digits py < k"
  shows "json_loads py (replicate k (CHR ''1'')) = Inl (Exception ''ValueError'')"
proof -
  from assms obtain k' where k: "k = Suc k'" by (cases k) auto
  have d: "is_digit (CHR ''1'')" by (simp add: is_digit_def)
  have "\<not> is_float (replicate k (CHR ''1''))"
    by (simp add: is_float_def list_ex_iff)
  moreover have "length (filter is_digit (replicate k (CHR ''1''))) = k"
    using d by simp
  ultimately have "int_too_long py (replicate k (CHR ''1''))"
    using assms by (simp add: int_too_long_def)
  with match_number_ones[of k'] k
  have "scan_constant py (replicate k (CHR ''1'')) = Inl (Exception ''ValueError'')"
    by (simp add: scan_constant_def)
  moreover have "skip_ws (replicate k (CHR ''1'')) = replicate k (CHR ''1'')"
    using k by (simp add: skip_ws_def json_ws_def)
  ultimately show ?thesis
    using k by (simp add: json_loads_def)
qed

section \<open>Properties of the keyword tool\<close>

lemma contains_iff: "contains w t \<longleftrightarrow> (\<exists>p s. t = p @ w @ s)"
proof (induction t)
  case Nil
  then show ?case by auto
next
  case (Cons c cs)
  show ?case
  proof
    assume "contains w (c # cs)"
    then consider "prefix w (c # cs)" | "contains w cs" by auto
    then show "\<exists>p s. c # cs = p @ w @ s"
    proof cases
      case 1
      then obtain s where "c # cs = w @ s" by (auto simp: prefix_def)
      then have "c # cs = [] @ w @ s" by simp
      then show ?thesis by blast
    next
      case 2
      with Cons.IH obtain p s where "cs = p @ w @ s" by blast
      then have "c # cs = (c # p) @ w @ s" by simp
      then show ?thesis by blast
    qed
  next
    assume "\<exists>p s. c # cs = p @ w @ s"
    then obtain p s where eq: "c # cs = p @ w @ s" by blast
    show "contains w (c # cs)"
    proof (cases p)
      case Nil
      with eq have "prefix w (c # cs)" by (simp add: prefix_def)
      then show ?thesis by simp
    next
      case (Cons a p')
      with eq have "cs = p' @ w @ s" by simp
      with Cons.IH have "contains w cs" by blast
      then show ?thesis by simp
    qed
  qed
qed

text \<open>The loop is a search for the first lexicon entry that the text contains.\<close>

lemma crisis_scan_find:
  "crisis_scan ks t v =
     (case find (\<lambda>w. contains w t) ks of
        None \<Rightarrow> v
      | Some w \<Rightarrow> v\<lparr>is_safe := False,
             reason := ''Detected crisis keyword: '' @ w,
             response_suggestion :=
               ''I am concerned about what you just said. I am notifying your emergency contact immediately. Please stay on the line.''\<rparr>)"
  by (induction ks) simp_all

lemma analyze_safety_find:
  "analyze_safety text_in =
     (case find (\<lambda>w. contains w (lower text_in)) crisis_keywords of
        None \<Rightarrow> stable_verdict
      | Some w \<Rightarrow> crisis_verdict w)"
  by (simp add: analyze_safety_def crisis_scan_find stable_verdict_def crisis_verdict_def
      split: option.split)

lemma analyze_safety_first:
  assumes "i < length crisis_keywords"
    and "contains (crisis_keywords ! i) (lower u)"
    and "\<forall>j<i. \<not> contains (crisis_keywords ! j) (lower u)"
  shows "analyze_safety u = crisis_verdict (crisis_keywords ! i)"
proof -
  have "find (\<lambda>w. contains w (lower u)) crisis_keywords = Some (crisis_keywords ! i)"
    unfolding find_Some_iff using assms by blast
  then show ?thesis by (simp add: analyze_safety_find)
qed

lemma analyze_safety_some:
  assumes "k \<in> set crisis_keywords" and "contains k (lower u)"
  shows "\<exists>i<length crisis_keywords. contains (crisis_keywords ! i) (lower u) \<and>
           (\<forall>j<i. \<not> contains (crisis_keywords ! j) (lower u)) \<and>
           analyze_safety u = crisis_verdict (crisis_keywords ! i)"
proof -
  from assms have "find (\<lambda>w. contains w (lower u)) crisis_keywords \<noteq> None"
    by (auto simp: find_None_iff)
  then obtain w where "find (\<lambda>w. contains w (lower u)) crisis_keywords = Some w"
    by blast
  then obtain i where "i < length crisis_keywords"
    and "contains (crisis_keywords ! i) (lower u)"
    and "\<forall>j<i. \<not> contains (crisis_keywords ! j) (lower u)"
    unfolding find_Some_iff by blast
  with analyze_safety_first[of i u] show ?thesis by blast
qed

lemma analyze_safety_none:
  assumes "\<forall>k \<in> set crisis_keywords. \<not> contains k (lower u)"
  shows "analyze_safety u = stable_verdict"
proof -
  from assms have "find (\<lambda>w. contains w (lower u)) crisis_keywords = None"
    by (simp add: find_None_iff)
  then show ?thesis by (simp add: analyze_safety_find)
qed

lemma crisis_keywords_distinct: "distinct crisis_keywords"
  by (simp add: crisis_keywords_def)

text \<open>
  The entry the scan reports is never behind an entry that the text contains.
\<close>

lemma analyze_safety_not_later:
  assumes "i < length crisis_keywords"
    and "contains (crisis_keywords ! i) (lower u)"
  shows "\<exists>m\<le>i. contains (crisis_keywords ! m) (lower u) \<and>
           (\<forall>n<m. \<not> contains (crisis_keywords ! n) (lower u)) \<and>
           analyze_safety u = crisis_verdict (crisis_keywords ! m)"
proof -
  have "crisis_keywords ! i \<in> set crisis_keywords"
    using assms(1) by simp
  from analyze_safety_some[OF this assms(2)] obtain m where m:
    "contains (crisis_keywords ! m) (lower u)"
    "\<forall>n<m. \<not> contains (crisis_keywords ! n) (lower u)"
    "analyze_safety u = crisis_verdict (crisis_keywords ! m)" by blast
  have "m \<le> i"
  proof (rule ccontr)
    assume "\<not> m \<le> i"
    then have "i < m" by simp
    with m(2) assms(2) show False by blast
  qed
  with m show ?thesis by blast
qed

subsection \<open>Claim C2\<close>

text \<open>
  C2. For every utterance whose lowercased text contains a crisis-lexicon keyword, the
  keyword tool returns a not-safe verdict whose reason names a crisis keyword detected in
  the text. \<^const>\<open>analyze_safety\<close> takes the utterance alone: it reads no session state, so
  the verdict is the same whether or not a confirmation is pending.
\<close>

theorem crisis_keyword_gives_unsafe_verdict:
  assumes "k \<in> set crisis_keywords" and "contains k (lower utterance)"
  shows "is_safe (analyze_safety utterance) = False \<and>
         (\<exists>w. w \<in> set crisis_keywords \<and> contains w (lower utterance) \<and>
              reason (analyze_safety utterance) = ''Detected crisis keyword: '' @ w)"
proof -
  from analyze_safety_some[OF assms] obtain i where
    "i < length crisis_keywords" "contains (crisis_keywords ! i) (lower utterance)"
    "analyze_safety utterance = crisis_verdict (crisis_keywords ! i)" by blast
  then show ?thesis by (auto simp: crisis_verdict_def)
qed

theorem crisis_keyword_gives_unsafe_verdict_witness:
  "''fell'' \<in> set crisis_keywords \<and>
   contains ''fell'' (lower ''I think I fell down and I am in a lot of pain.'') \<and>
   is_safe (analyze_safety ''I think I fell down and I am in a lot of pain.'') = False \<and>
   (\<exists>w. w \<in> set crisis_keywords \<and>
        contains w (lower ''I think I fell down and I am in a lot of pain.'') \<and>
        reason (analyze_safety ''I think I fell down and I am in a lot of pain.'') =
          ''Detected crisis keyword: '' @ w)"
proof -
  have a: "''fell'' \<in> set crisis_keywords"
    by (simp add: crisis_keywords_def)
  have b: "contains ''fell'' (lower ''I think I fell down and I am in a lot of pain.'')"
    by code_simp
  from crisis_keyword_gives_unsafe_verdict[OF a b] a b show ?thesis by blast
qed

subsection \<open>Claim C3\<close>

text \<open>
  C3. For every utterance whose lowercased text contains no crisis keyword, the keyword
  tool returns the stable verdict: \<open>is_safe = True\<close>, reason \<open>User appears stable.\<close> and an
  empty response suggestion. The code has no distress lexicon, so the verdict holds for
  every such utterance, in particular for those without a distress term.
\<close>

theorem no_crisis_keyword_gives_stable_verdict:
  assumes "\<forall>k \<in> set crisis_keywords. \<not> contains k (lower utterance)"
  shows "analyze_safety utterance =
           \<lparr>is_safe = True, reason = ''User appears stable.'', response_suggestion = ''''\<rparr>"
  using analyze_safety_none[OF assms] by (simp add: stable_verdict_def)

theorem no_crisis_keyword_gives_stable_verdict_witness:
  "\<not> (\<exists>k \<in> set crisis_keywords.
      contains k (lower ''I am planning to visit my grandson tomorrow.'')) \<and>
   analyze_safety ''I am planning to visit my grandson tomorrow.'' =
     \<lparr>is_safe = True, reason = ''User appears stable.'', response_suggestion = ''''\<rparr>"
proof -
  have a: "\<forall>k \<in> set crisis_keywords.
      \<not> contains k (lower ''I am planning to visit my grandson tomorrow.'')"
    by code_simp
  from no_crisis_keyword_gives_stable_verdict[OF a] a show ?thesis by blast
qed

subsection \<open>Claim C4\<close>

text \<open>
  C4, as stated, fails: the keyword tool has no secondary lexicon and no level between
  stable and crisis. The utterance of the conversation agent's own test,
  \<open>I am feeling a bit lonely today.\<close>, contains the loneliness term \<open>lonely\<close> and no crisis
  keyword, and its verdict is the stable one, the same as for a calm utterance.
\<close>

theorem distress_utterance_not_upgraded:
  "contains ''lonely'' (lower ''I am feeling a bit lonely today.'') \<and>
   find (\<lambda>k. contains k (lower ''I am feeling a bit lonely today.'')) crisis_keywords = None \<and>
   analyze_safety ''I am feeling a bit lonely today.'' =
     \<lparr>is_safe = True, reason = ''User appears stable.'', response_suggestion = ''''\<rparr> \<and>
   analyze_safety ''I am feeling a bit lonely today.'' =
     analyze_safety ''I am planning to visit my grandson tomorrow.''"
  by code_simp

text \<open>
  C4, amended. For every utterance that matches no crisis keyword, also when it contains a
  term of a secondary distress lexicon (whatever that lexicon is), the keyword tool returns
  the stable verdict: the terms of sadness, loneliness and confusion change nothing.
\<close>

theorem distress_terms_leave_stable_verdict:
  assumes "\<forall>k \<in> set crisis_keywords. \<not> contains k (lower utterance)"
    and "d \<in> set distress_lexicon"
    and "contains d (lower utterance)"
  shows "analyze_safety utterance = stable_verdict \<and> is_safe (analyze_safety utterance)"
  using analyze_safety_none[OF assms(1)] by (simp add: stable_verdict_def)

theorem distress_terms_leave_stable_verdict_witness:
  "''lonely'' \<in> set [''sad'', ''lonely'', ''confused''] \<and>
   contains ''lonely'' (lower ''I am feeling a bit lonely today.'') \<and>
   \<not> (\<exists>k \<in> set crisis_keywords. contains k (lower ''I am feeling a bit lonely today.'')) \<and>
   analyze_safety ''I am feeling a bit lonely today.'' = stable_verdict \<and>
   is_safe (analyze_safety ''I am feeling a bit lonely today.'')"
proof -
  have a: "\<forall>k \<in> set crisis_keywords.
      \<not> contains k (lower ''I am feeling a bit lonely today.'')"
    by code_simp
  have b: "''lonely'' \<in> set [''sad'', ''lonely'', ''confused'']"
    by simp
  have c: "contains ''lonely'' (lower ''I am feeling a bit lonely today.'')"
    by code_simp
  from distress_terms_leave_stable_verdict[OF a b c] a b c show ?thesis by blast
qed

subsection \<open>Claim C8\<close>

text \<open>
  C8. For every utterance whose lowercased text contains two crisis keywords, at the
  positions \<open>i < j\<close> of the lexicon, the keyword the tool reports is the first entry of the
  lexicon that the text contains: it stands at a position \<open>m \<le> i\<close>, no entry before it is
  in the text, and it is not the later keyword \<open>j\<close>. Where the keywords stand in the text
  plays no part.
\<close>

theorem first_lexicon_keyword_is_reported:
  assumes "i < j" and "j < length crisis_keywords"
    and "contains (crisis_keywords ! i) (lower utterance)"
    and "contains (crisis_keywords ! j) (lower utterance)"
  shows "\<exists>m\<le>i. contains (crisis_keywords ! m) (lower utterance) \<and>
           (\<forall>n<m. \<not> contains (crisis_keywords ! n) (lower utterance)) \<and>
           analyze_safety utterance = crisis_verdict (crisis_keywords ! m) \<and>
           reason (analyze_safety utterance) \<noteq>
             ''Detected crisis keyword: '' @ crisis_keywords ! j"
proof -
  have "i < length crisis_keywords"
    using assms(1,2) by simp
  from analyze_safety_not_later[OF this assms(3)] obtain m where m:
    "m \<le> i" "contains (crisis_keywords ! m) (lower utterance)"
    "\<forall>n<m. \<not> contains (crisis_keywords ! n) (lower utterance)"
    "analyze_safety utterance = crisis_verdict (crisis_keywords ! m)" by blast
  have "crisis_keywords ! m \<noteq> crisis_keywords ! j"
    using crisis_keywords_distinct m(1) assms(1,2)
    by (simp add: nth_eq_iff_index_eq)
  with m show ?thesis by (auto simp: crisis_verdict_def)
qed

text \<open>
  In \<open>There is blood, I fell\<close> the keyword \<open>blood\<close> comes first in the text and \<open>fell\<close>
  comes first in the lexicon; \<open>fell\<close> is reported.
\<close>

theorem first_lexicon_keyword_is_reported_witness:
  "(1::nat) < 6 \<and> 6 < length crisis_keywords \<and>
   crisis_keywords ! 1 = ''fell'' \<and> crisis_keywords ! 6 = ''blood'' \<and>
   contains ''fell'' (lower ''There is blood, I fell'') \<and>
   contains ''blood'' (lower ''There is blood, I fell'') \<and>
   analyze_safety ''There is blood, I fell'' = crisis_verdict ''fell'' \<and>
   reason (analyze_safety ''There is blood, I fell'') \<noteq> ''Detected crisis keyword: blood''"
proof -
  have a: "(1::nat) < 6" by simp
  have b: "6 < length crisis_keywords" by (simp add: crisis_keywords_def)
  have k0: "crisis_keywords ! 0 = ''fall''" by (simp add: crisis_keywords_def)
  have k1: "crisis_keywords ! 1 = ''fell''" by (simp add: crisis_keywords_def)
  have k6: "crisis_keywords ! 6 = ''blood''" by (simp add: crisis_keywords_def)
  have c: "contains (crisis_keywords ! 1) (lower ''There is blood, I fell'')"
    unfolding k1 by code_simp
  have d: "contains (crisis_keywords ! 6) (lower ''There is blood, I fell'')"
    unfolding k6 by code_simp
  have e: "\<not> contains (crisis_keywords ! 0) (lower ''There is blood, I fell'')"
    unfolding k0 by code_simp
  from first_lexicon_keyword_is_reported[OF a b c d] obtain m where m: "m \<le> 1"
    "contains (crisis_keywords ! m) (lower ''There is blood, I fell'')"
    "analyze_safety ''There is blood, I fell'' = crisis_verdict (crisis_keywords ! m)"
    "reason (analyze_safety ''There is blood, I fell'') \<noteq>
       ''Detected crisis keyword: '' @ crisis_keywords ! 6" by blast
  have "m = 1"
  proof (rule ccontr)
    assume "m \<noteq> 1"
    with m(1) have "m = 0" by simp
    with m(2) e show False by simp
  qed
  with m k1 k6 a b c d show ?thesis by simp
qed

subsection \<open>Claim C10\<close>

text \<open>
  C10, as stated, fails where the text also contains an earlier entry of the lexicon: in
  \<open>The bloodhound ran to the waterfall\<close> the keyword \<open>blood\<close> stands inside the longer
  word \<open>bloodhound\<close> and the keyword \<open>fall\<close> inside \<open>waterfall\<close>; the verdict is not safe,
  and its reason names \<open>fall\<close>, the earlier entry of the lexicon, not \<open>blood\<close>.
\<close>

theorem embedded_keyword_not_reported:
  "''blood'' \<in> set crisis_keywords \<and>
   lower ''The bloodhound ran to the waterfall'' =
     ''the '' @ ''blood'' @ ''hound ran to the waterfall'' \<and>
   is_safe (analyze_safety ''The bloodhound ran to the waterfall'') = False \<and>
   reason (analyze_safety ''The bloodhound ran to the waterfall'') =
     ''Detected crisis keyword: fall'' \<and>
   reason (analyze_safety ''The bloodhound ran to the waterfall'') \<noteq>
     ''Detected crisis keyword: blood''"
  by code_simp

text \<open>
  C10, amended. Detection is containment in the lowered utterance, with no check of word
  boundaries: for every utterance whose lowercased text is \<open>p @ k @ s\<close> for a crisis keyword
  \<open>k\<close> and any texts \<open>p\<close> and \<open>s\<close> around it (the rest of a longer word included), the verdict
  is not safe and the reason names a crisis keyword of the text that is not behind \<open>k\<close> in
  the lexicon; it names \<open>k\<close> itself whenever no earlier entry of the lexicon is in the text.
\<close>

theorem substring_match_without_word_boundary:
  assumes "i < length crisis_keywords"
    and "lower utterance = p @ crisis_keywords ! i @ s"
  shows "is_safe (analyze_safety utterance) = False \<and>
         (\<exists>m\<le>i. contains (crisis_keywords ! m) (lower utterance) \<and>
                reason (analyze_safety utterance) =
                  ''Detected crisis keyword: '' @ crisis_keywords ! m) \<and>
         ((\<forall>j<i. \<not> contains (crisis_keywords ! j) (lower utterance)) \<longrightarrow>
            reason (analyze_safety utterance) =
              ''Detected crisis keyword: '' @ crisis_keywords ! i)"
proof -
  have c: "contains (crisis_keywords ! i) (lower utterance)"
    using assms(2) contains_iff by blast
  from analyze_safety_not_later[OF assms(1) c] obtain m where m:
    "m \<le> i" "contains (crisis_keywords ! m) (lower utterance)"
    "analyze_safety utterance = crisis_verdict (crisis_keywords ! m)" by blast
  have 1: "is_safe (analyze_safety utterance) = False"
    using m(3) by (simp add: crisis_verdict_def)
  have 2: "\<exists>m\<le>i. contains (crisis_keywords ! m) (lower utterance) \<and>
                reason (analyze_safety utterance) =
                  ''Detected crisis keyword: '' @ crisis_keywords ! m"
    using m by (auto simp: crisis_verdict_def)
  have 3: "(\<forall>j<i. \<not> contains (crisis_keywords ! j) (lower utterance)) \<longrightarrow>
            reason (analyze_safety utterance) =
              ''Detected crisis keyword: '' @ crisis_keywords ! i"
    using analyze_safety_first[OF assms(1) c] by (simp add: crisis_verdict_def)
  from 1 2 3 show ?thesis by blast
qed

theorem substring_match_without_word_boundary_witness:
  "lower ''We walked to the Waterfall'' = ''we walked to the water'' @ ''fall'' @ '''' \<and>
   is_safe (analyze_safety ''We walked to the Waterfall'') = False \<and>
   reason (analyze_safety ''We walked to the Waterfall'') = ''Detected crisis keyword: fall''"
proof -
  have a: "0 < length crisis_keywords" by (simp add: crisis_keywords_def)
  have k0: "crisis_keywords ! 0 = ''fall''" by (simp add: crisis_keywords_def)
  have b: "lower ''We walked to the Waterfall'' =
             ''we walked to the water'' @ crisis_keywords ! 0 @ ''''"
    unfolding k0 by code_simp
  from substring_match_without_word_boundary[OF a b] b k0 show ?thesis by simp
qed

section \<open>Properties of the executors\<close>

text \<open>
  Which calls raise decides how the body of \<^verbatim>\<open>execute\<close> ends: an exception leaves it exactly
  when one of its calls raises.
\<close>

lemma process_message_raises_iff:
  "process_message adk user_id session_id text_in = Inl e \<longleftrightarrow>
     (get_session_raises (adk user_id session_id text_in) \<and>
      create_session_raises (adk user_id session_id text_in) = Some e) \<or>
     (\<not> (get_session_raises (adk user_id session_id text_in) \<and>
         create_session_raises (adk user_id session_id text_in) \<noteq> None) \<and>
      run_raises (adk user_id session_id text_in) = Some e)"
  by (auto simp: process_message_def Let_def split: option.splits if_splits)

lemma obtain_task_raises_iff:
  "obtain_task sdk ctx q = Inl e \<longleftrightarrow> current_task ctx = None \<and> new_task_raises sdk = Some e"
  by (auto simp: obtain_task_def new_task_def split: option.splits sum.splits)

lemma obtain_task_queue:
  assumes "obtain_task sdk ctx q = Inr (t, q1)"
  shows "q1 = q \<or> (q1 = q @ [Task_event t] \<and> task_state t = Submitted)"
  using assms
  by (auto simp: obtain_task_def new_task_def split: option.splits sum.splits)

lemma SafetyExecutor_try_raises_iff:
  "(\<exists>e. snd (SafetyExecutor_try sdk adk ctx q) = Some e) \<longleftrightarrow>
   safety_processing_raises sdk adk ctx"
proof (cases "obtain_task sdk ctx q")
  case (Inl e)
  then have "current_task ctx = None \<and> new_task_raises sdk = Some e"
    by (simp add: obtain_task_raises_iff)
  with Inl show ?thesis
    by (simp add: SafetyExecutor_try_def safety_processing_raises_def)
next
  case (Inr p)
  obtain t q1 where p: "p = (t, q1)" by (cases p)
  let ?run = "adk ''default_user'' (request_context_id ctx) (user_input ctx)"
  have nt: "\<not> (current_task ctx = None \<and> new_task_raises sdk \<noteq> None)"
    using Inr by (auto simp: obtain_task_def new_task_def split: option.splits)
  show ?thesis
  proof (cases "get_user_input_raises sdk")
    case (Some e)
    with Inr p show ?thesis
      by (simp add: SafetyExecutor_try_def safety_processing_raises_def get_user_input_def)
  next
    case None
    show ?thesis
    proof (cases "process_message adk ''default_user'' (request_context_id ctx) (user_input ctx)")
      case (Inl e)
      then have "(get_session_raises ?run \<and> create_session_raises ?run \<noteq> None) \<or>
                 run_raises ?run \<noteq> None"
        by (auto simp: process_message_raises_iff)
      with Inl Inr p None show ?thesis
        by (auto simp: SafetyExecutor_try_def safety_processing_raises_def get_user_input_def
            Let_def)
    next
      case r: (Inr response_text)
      then have np: "\<not> (get_session_raises ?run \<and> create_session_raises ?run \<noteq> None)"
        "run_raises ?run = None"
        by (auto simp: process_message_def Let_def split: option.splits if_splits)
      show ?thesis
      proof (cases "completed_task_raises sdk")
        case (Some e)
        with r Inr p None show ?thesis
          by (simp add: SafetyExecutor_try_def safety_processing_raises_def get_user_input_def
              completed_task_def)
      next
        case n2: None
        with r Inr p None nt np show ?thesis
          by (simp add: SafetyExecutor_try_def safety_processing_raises_def get_user_input_def
              completed_task_def Let_def)
      qed
    qed
  qed
qed

lemma ConversationExecutor_try_raises_iff:
  "(\<exists>e. snd (ConversationExecutor_try sdk loads ollama ctx q) = Some e) \<longleftrightarrow>
   conversation_processing_raises sdk ctx"
proof (cases "obtain_task sdk ctx q")
  case (Inl e)
  then have "current_task ctx = None \<and> new_task_raises sdk = Some e"
    by (simp add: obtain_task_raises_iff)
  with Inl show ?thesis
    by (simp add: ConversationExecutor_try_def conversation_processing_raises_def)
next
  case (Inr p)
  obtain t q1 where p: "p = (t, q1)" by (cases p)
  have nt: "\<not> (current_task ctx = None \<and> new_task_raises sdk \<noteq> None)"
    using Inr by (auto simp: obtain_task_def new_task_def split: option.splits)
  show ?thesis
  proof (cases "get_user_input_raises sdk")
    case (Some e)
    with Inr p show ?thesis
      by (simp add: ConversationExecutor_try_def conversation_processing_raises_def
          get_user_input_def)
  next
    case None
    show ?thesis
    proof (cases "completed_task_raises sdk")
      case (Some e)
      with Inr p None show ?thesis
        by (simp add: ConversationExecutor_try_def conversation_processing_raises_def
            get_user_input_def completed_task_def)
    next
      case n2: None
      with Inr p None nt show ?thesis
        by (simp add: ConversationExecutor_try_def conversation_processing_raises_def
            get_user_input_def completed_task_def)
    qed
  qed
qed

text \<open>
  When the body of \<^verbatim>\<open>execute\<close> is left by an exception, the queue holds what it held
  before, and at most the new task, which is in state submitted.
\<close>

lemma SafetyExecutor_try_failure_queue:
  assumes "SafetyExecutor_try sdk adk ctx q = (q', Some e)"
  shows "q' = q \<or> (\<exists>t. q' = q @ [Task_event t] \<and> task_state t = Submitted)"
proof (cases "obtain_task sdk ctx q")
  case (Inl a)
  with assms show ?thesis by (simp add: SafetyExecutor_try_def)
next
  case (Inr p)
  obtain t q1 where p: "p = (t, q1)" by (cases p)
  from assms Inr p have "q' = q1"
    by (auto simp: SafetyExecutor_try_def split: sum.splits)
  with obtain_task_queue[of sdk ctx q t q1] Inr p show ?thesis by auto
qed

lemma ConversationExecutor_try_failure_queue:
  assumes "ConversationExecutor_try sdk loads ollama ctx q = (q', Some e)"
  shows "q' = q \<or> (\<exists>t. q' = q @ [Task_event t] \<and> task_state t = Submitted)"
proof (cases "obtain_task sdk ctx q")
  case (Inl a)
  with assms show ?thesis by (simp add: ConversationExecutor_try_def)
next
  case (Inr p)
  obtain t q1 where p: "p = (t, q1)" by (cases p)
  from assms Inr p have "q' = q1"
    by (auto simp: ConversationExecutor_try_def split: sum.splits)
  with obtain_task_queue[of sdk ctx q t q1] Inr p show ?thesis by auto
qed

lemma failed_update_after_prefix:
  assumes "q' = q \<or> (\<exists>t. q' = q @ [Task_event t] \<and> task_state t = Submitted)"
  shows "\<exists>out. update_status q' tid cid Failed msg True = q @ out \<and> one_failed_terminal out"
proof -
  let ?u = "Status_update_event
            \<lparr>update_task_id = tid, update_context_id = cid, update_state = Failed,
             update_message = msg, update_final = True\<rparr>"
  from assms show ?thesis
  proof
    assume "q' = q"
    then have "update_status q' tid cid Failed msg True = q @ [?u]"
      by (simp add: update_status_def)
    moreover have "one_failed_terminal [?u]"
      by (simp add: one_failed_terminal_def)
    ultimately show ?thesis by blast
  next
    assume "\<exists>t. q' = q @ [Task_event t] \<and> task_state t = Submitted"
    then obtain t where t: "q' = q @ [Task_event t]" "task_state t = Submitted" by blast
    then have "update_status q' tid cid Failed msg True = q @ [Task_event t, ?u]"
      by (simp add: update_status_def)
    moreover have "one_failed_terminal [Task_event t, ?u]"
      using t(2) by (simp add: one_failed_terminal_def terminal_state_def)
    ultimately show ?thesis by blast
  qed
qed

text \<open>
  When no call raises, \<^verbatim>\<open>execute\<close> ends with a completed task that carries the reply, after
  at most the new task, and adds no event in state failed.
\<close>

lemma SafetyExecutor_execute_completes:
  assumes "\<not> safety_processing_raises sdk adk ctx"
  shows "\<exists>before t response_text.
           process_message adk ''default_user'' (request_context_id ctx) (user_input ctx) =
             Inr response_text \<and>
           SafetyExecutor_execute sdk adk str_exn ctx q = q @ before @ [Task_event t] \<and>
           task_state t = Completed \<and>
           task_artifacts t =
             [\<lparr>artifact_name = ''safety_analysis_result'', artifact_parts = [response_text]\<rparr>] \<and>
           \<not> list_ex (\<lambda>ev. event_state ev = Failed) (before @ [Task_event t])"
proof -
  let ?run = "adk ''default_user'' (request_context_id ctx) (user_input ctx)"
  from assms have ok: "current_task ctx = None \<longrightarrow> new_task_raises sdk = None"
    "get_user_input_raises sdk = None" "completed_task_raises sdk = None"
    and run: "\<not> (get_session_raises ?run \<and> create_session_raises ?run \<noteq> None)"
      "run_raises ?run = None"
    by (auto simp: safety_processing_raises_def Let_def)
  have "\<not> isl (process_message adk ''default_user'' (request_context_id ctx) (user_input ctx))"
    using run by (auto simp: isl_def process_message_raises_iff)
  then obtain response_text where r:
    "process_message adk ''default_user'' (request_context_id ctx) (user_input ctx) =
       Inr response_text"
    by (cases "process_message adk ''default_user'' (request_context_id ctx) (user_input ctx)")
      auto
  let ?art = "[\<lparr>artifact_name = ''safety_analysis_result'', artifact_parts = [response_text]\<rparr>]"
  show ?thesis
  proof (cases "current_task ctx")
    case None
    let ?new = "\<lparr>task_id = (case message_task_id (request_message ctx) of
                               Some i \<Rightarrow> i | None \<Rightarrow> fresh_task_id sdk),
                  task_context_id = (case message_context_id (request_message ctx) of
                               Some c \<Rightarrow> c | None \<Rightarrow> fresh_context_id sdk),
                  task_state = Submitted, task_artifacts = [],
                  task_history = [request_message ctx]\<rparr>"
    let ?done = "\<lparr>task_id = task_id ?new, task_context_id = task_context_id ?new,
                   task_state = Completed, task_artifacts = ?art,
                   task_history = [request_message ctx]\<rparr>"
    have "SafetyExecutor_execute sdk adk str_exn ctx q =
            q @ [Task_event ?new] @ [Task_event ?done]"
      using None ok r
      by (simp add: SafetyExecutor_execute_def SafetyExecutor_try_def
          obtain_task_def new_task_def get_user_input_def completed_task_def new_artifact_def)
    moreover have "task_state ?done = Completed" "task_artifacts ?done = ?art"
      by simp_all
    moreover have "\<not> list_ex (\<lambda>ev. event_state ev = Failed)
                       ([Task_event ?new] @ [Task_event ?done])"
      by simp
    ultimately show ?thesis using r by blast
  next
    case (Some t0)
    let ?done = "\<lparr>task_id = task_id t0, task_context_id = task_context_id t0,
                   task_state = Completed, task_artifacts = ?art,
                   task_history = [request_message ctx]\<rparr>"
    have "SafetyExecutor_execute sdk adk str_exn ctx q = q @ [] @ [Task_event ?done]"
      using Some ok r
      by (simp add: SafetyExecutor_execute_def SafetyExecutor_try_def
          obtain_task_def get_user_input_def completed_task_def new_artifact_def)
    moreover have "task_state ?done = Completed" "task_artifacts ?done = ?art"
      by simp_all
    moreover have "\<not> list_ex (\<lambda>ev. event_state ev = Failed) ([] @ [Task_event ?done])"
      by simp
    ultimately show ?thesis using r by blast
  qed
qed


subsection \<open>Claim C5\<close>

text \<open>
  C5. For every request to the Safety executor and every request to the Conversation
  executor, whatever the queue held before: if a call in the body of \<^verbatim>\<open>execute\<close> raises
  (\<^verbatim>\<open>new_task\<close>, \<^verbatim>\<open>get_user_input\<close>, the session service or the run of the model inside
  \<^verbatim>\<open>process_message\<close>, \<^verbatim>\<open>completed_task\<close>; whatever the exception), the events \<^verbatim>\<open>execute\<close>
  has added when it returns hold exactly one terminal event; it is the last one and its
  state is failed, and no added event has the state completed.
\<close>

theorem executor_failure_emits_one_failed_event:
  "(safety_processing_raises sdk adk ctx \<longrightarrow>
      (\<exists>out. SafetyExecutor_execute sdk adk str_exn ctx q = q @ out \<and>
             one_failed_terminal out)) \<and>
   (conversation_processing_raises sdk' ctx' \<longrightarrow>
      (\<exists>out. ConversationExecutor_execute sdk' loads ollama ctx' q' = q' @ out \<and>
             one_failed_terminal out))"
proof (intro conjI impI)
  assume "safety_processing_raises sdk adk ctx"
  then obtain e where "snd (SafetyExecutor_try sdk adk ctx q) = Some e"
    using SafetyExecutor_try_raises_iff[of sdk adk ctx q] by blast
  then obtain q1 where q1: "SafetyExecutor_try sdk adk ctx q = (q1, Some e)"
    by (cases "SafetyExecutor_try sdk adk ctx q") auto
  have "SafetyExecutor_execute sdk adk str_exn ctx q =
          update_status q1 (request_task_id ctx) (request_context_id ctx) Failed
            (Some (''Safety Analysis Failed: '' @ str_exn e)) True"
    by (simp add: SafetyExecutor_execute_def q1)
  with failed_update_after_prefix[OF SafetyExecutor_try_failure_queue[OF q1]]
  show "\<exists>out. SafetyExecutor_execute sdk adk str_exn ctx q = q @ out \<and>
          one_failed_terminal out"
    by simp
next
  assume "conversation_processing_raises sdk' ctx'"
  then obtain e where "snd (ConversationExecutor_try sdk' loads ollama ctx' q') = Some e"
    using ConversationExecutor_try_raises_iff[of sdk' loads ollama ctx' q'] by blast
  then obtain q1 where q1: "ConversationExecutor_try sdk' loads ollama ctx' q' = (q1, Some e)"
    by (cases "ConversationExecutor_try sdk' loads ollama ctx' q'") auto
  have "ConversationExecutor_execute sdk' loads ollama ctx' q' =
          update_status q1 (request_task_id ctx') (request_context_id ctx') Failed None True"
    by (simp add: ConversationExecutor_execute_def q1)
  with failed_update_after_prefix[OF ConversationExecutor_try_failure_queue[OF q1]]
  show "\<exists>out. ConversationExecutor_execute sdk' loads ollama ctx' q' = q' @ out \<and>
          one_failed_terminal out"
    by simp
qed

text \<open>
  The Safety executor with a runner that raises, and the Conversation executor with a
  library whose \<^verbatim>\<open>new_task\<close> rejects the message: the events each one adds.
\<close>

theorem executor_failure_emits_one_failed_event_witness:
  "safety_processing_raises sdk_ok failing_run fell_request \<and>
   SafetyExecutor_execute sdk_ok failing_run str_label fell_request [] =
     [Task_event
        \<lparr>task_id = ''task-1'', task_context_id = ''ctx-7'', task_state = Submitted,
         task_artifacts = [], task_history = [request_message fell_request]\<rparr>,
      Status_update_event
        \<lparr>update_task_id = ''task-1'', update_context_id = ''ctx-7'', update_state = Failed,
         update_message = Some ''Safety Analysis Failed: model endpoint unreachable'',
         update_final = True\<rparr>] \<and>
   (\<exists>out. SafetyExecutor_execute sdk_ok failing_run str_label fell_request [] = [] @ out \<and>
          one_failed_terminal out) \<and>
   conversation_processing_raises
     (sdk_ok\<lparr>new_task_raises := Some (Exception ''Message parts cannot be empty'')\<rparr>)
     fell_request \<and>
   ConversationExecutor_execute
     (sdk_ok\<lparr>new_task_raises := Some (Exception ''Message parts cannot be empty'')\<rparr>)
     (json_loads cpython) ollama_down fell_request [] =
     [Status_update_event
        \<lparr>update_task_id = ''task-1'', update_context_id = ''ctx-7'', update_state = Failed,
         update_message = None, update_final = True\<rparr>] \<and>
   (\<exists>out. ConversationExecutor_execute
            (sdk_ok\<lparr>new_task_raises := Some (Exception ''Message parts cannot be empty'')\<rparr>)
            (json_loads cpython) ollama_down fell_request [] = [] @ out \<and>
          one_failed_terminal out)"
proof -
  let ?sdk = "sdk_ok\<lparr>new_task_raises := Some (Exception ''Message parts cannot be empty'')\<rparr>"
  have a: "safety_processing_raises sdk_ok failing_run fell_request"
    by (simp add: safety_processing_raises_def failing_run_def)
  have b: "conversation_processing_raises ?sdk fell_request"
    by (simp add: conversation_processing_raises_def fell_request_def)
  have c: "SafetyExecutor_execute sdk_ok failing_run str_label fell_request [] =
     [Task_event
        \<lparr>task_id = ''task-1'', task_context_id = ''ctx-7'', task_state = Submitted,
         task_artifacts = [], task_history = [request_message fell_request]\<rparr>,
      Status_update_event
        \<lparr>update_task_id = ''task-1'', update_context_id = ''ctx-7'', update_state = Failed,
         update_message = Some ''Safety Analysis Failed: model endpoint unreachable'',
         update_final = True\<rparr>]"
    by code_simp
  have d: "ConversationExecutor_execute ?sdk (json_loads cpython) ollama_down fell_request [] =
     [Status_update_event
        \<lparr>update_task_id = ''task-1'', update_context_id = ''ctx-7'', update_state = Failed,
         update_message = None, update_final = True\<rparr>]"
    by code_simp
  from executor_failure_emits_one_failed_event
         [of sdk_ok failing_run fell_request str_label "[]" ?sdk fell_request
             "json_loads cpython" ollama_down "[]"]
       a b c d
  show ?thesis by blast
qed

subsection \<open>Claim C6\<close>

text \<open>
  C6. For every cancel request, to the Safety executor and to the Conversation executor,
  \<^verbatim>\<open>cancel\<close> raises \<^verbatim>\<open>ServerError\<close> with an \<^verbatim>\<open>UnsupportedOperationError\<close>; it never returns.
\<close>

theorem cancel_raises_unsupported_operation:
  "SafetyExecutor_cancel ctx q = Inl (ServerError UnsupportedOperationError) \<and>
   ConversationExecutor_cancel ctx' q' = Inl (ServerError UnsupportedOperationError)"
  by (simp add: SafetyExecutor_cancel_def ConversationExecutor_cancel_def)

subsection \<open>Claim C9\<close>




section \<open>Properties of the Safety path\<close>

text \<open>
  The text \<^verbatim>\<open>check_safety\<close> decodes: the texts of the parts of the last chunk the network
  delivered, and \<open>{}\<close> when the call failed or delivered nothing.
\<close>

lemma response_text_of_chunks:
  assumes "net ''http://safety-agent:8080'' user_text = Inr chunks"
    and "chunks \<noteq> []" and "last chunks = Some parts"
  shows "result_get (call_a2a_agent net str_exn ''http://safety-agent:8080'' user_text)
           ''response_text'' ''{}'' = concat (map part_text parts)"
  using assms by (simp add: call_a2a_agent_def result_get_def)

lemma response_text_of_failure:
  assumes "net ''http://safety-agent:8080'' user_text = Inl e \<or>
           net ''http://safety-agent:8080'' user_text = Inr []"
  shows "result_get (call_a2a_agent net str_exn ''http://safety-agent:8080'' user_text)
           ''response_text'' ''{}'' = ''{}''"
  using assms by (auto simp: call_a2a_agent_def result_get_def)

text \<open>
  When the run of the model ends without an exception and without text,
  \<^verbatim>\<open>process_message\<close> returns a fixed reply, whatever the tools of the agent returned in
  that run; decoded, the reply is a verdict with \<open>is_safe\<close> true. The comment beside the
  statement speaks of the output of the tool instead.
\<close>

lemma process_message_without_text:
  assumes "\<not> (get_session_raises (adk uid sid msg) \<and> create_session_raises (adk uid sid msg) \<noteq> None)"
    and "run_raises (adk uid sid msg) = None"
    and "final_text (run_steps (adk uid sid msg)) (Some '''') = None \<or>
         final_text (run_steps (adk uid sid msg)) (Some '''') = Some ''''"
  shows "process_message adk uid sid msg = Inr no_output_reply"
  using assms by (auto simp: process_message_def Let_def)

lemma no_output_reply_decoded:
  "json_loads cpython no_output_reply =
     Inr (JObject [(''is_safe'', JBool True),
                   (''reason'', JString ''Agent provided no output''),
                   (''response_suggestion'', JString '''')])"
  by code_simp

subsection \<open>Claim C1\<close>

text \<open>
  C1, as stated, fails on a reply of the safety agent that cannot be parsed as JSON: the
  decoder raises a decode error on the reply, and \<^verbatim>\<open>check_safety\<close> returns a verdict with
  \<open>is_safe\<close> true instead of failing. The network here delivers to the orchestrator one
  chunk that carries the text of the reply.
\<close>

theorem unparseable_reply_surfaces_as_safe:
  "json_loads cpython ''I am not sure what to say.'' = Inl JSONDecodeError \<and>
   check_safety (json_loads cpython) (net_reply ''I am not sure what to say.'') str_label
     ''I think I fell down and I am in a lot of pain.'' =
     Inr (JObject [(''is_safe'', JBool True),
                   (''reason'', JString ''Parse error, assuming safe'')])"
  by code_simp

text \<open>
  C1, amended. Let \<open>reply\<close> be the text \<^verbatim>\<open>check_safety\<close> decodes. When the decoder raises a
  decode error on it, the failure is downgraded: \<^verbatim>\<open>check_safety\<close> returns the verdict with
  \<open>is_safe\<close> true and the reason \<open>Parse error, assuming safe\<close>. When the decoder raises an
  exception of another class on the reply, \<^verbatim>\<open>check_safety\<close> raises that exception and the
  turn fails. A reply the decoder accepts is returned as decoded.
\<close>

theorem decode_error_is_assumed_safe:
  assumes "result_get (call_a2a_agent net str_exn ''http://safety-agent:8080'' user_text)
             ''response_text'' ''{}'' = reply"
  shows "(loads reply = Inl JSONDecodeError \<longrightarrow>
            check_safety loads net str_exn user_text =
              Inr (JObject [(''is_safe'', JBool True),
                            (''reason'', JString ''Parse error, assuming safe'')])) \<and>
         (loads reply = Inl e \<and> e \<noteq> JSONDecodeError \<longrightarrow>
            check_safety loads net str_exn user_text = Inl e) \<and>
         (loads reply = Inr v \<longrightarrow> check_safety loads net str_exn user_text = Inr v)"
proof (intro conjI impI)
  assume "loads reply = Inl JSONDecodeError"
  with assms show "check_safety loads net str_exn user_text =
      Inr (JObject [(''is_safe'', JBool True),
                    (''reason'', JString ''Parse error, assuming safe'')])"
    by (simp add: check_safety_def)
next
  assume "loads reply = Inl e \<and> e \<noteq> JSONDecodeError"
  with assms show "check_safety loads net str_exn user_text = Inl e"
    by (cases e) (simp_all add: check_safety_def)
next
  assume "loads reply = Inr v"
  with assms show "check_safety loads net str_exn user_text = Inr v"
    by (simp add: check_safety_def)
qed

text \<open>
  A reply of plain text, which is assumed safe; a reply nested deeper than the interpreter
  allows, on which \<^verbatim>\<open>check_safety\<close> raises the \<^verbatim>\<open>RecursionError\<close> of the decoder; and a
  reply that is JSON, which is returned as decoded.
\<close>

theorem decode_error_is_assumed_safe_witness:
  "json_loads cpython ''I am not sure what to say.'' = Inl JSONDecodeError \<and>
   check_safety (json_loads cpython) (net_reply ''I am not sure what to say.'') str_label
     ''I think I fell down and I am in a lot of pain.'' =
     Inr (JObject [(''is_safe'', JBool True),
                   (''reason'', JString ''Parse error, assuming safe'')]) \<and>
   json_loads cpython (replicate 1000 (CHR ''['')) = Inl (Exception ''RecursionError'') \<and>
   check_safety (json_loads cpython) (net_reply (replicate 1000 (CHR ''[''))) str_label
     ''I think I fell down and I am in a lot of pain.'' = Inl (Exception ''RecursionError'') \<and>
   json_loads cpython crisis_reply =
     Inr (JObject [(''is_safe'', JBool False),
                   (''reason'', JString ''Detected crisis keyword: fell'')]) \<and>
   check_safety (json_loads cpython) (net_reply crisis_reply) str_label
     ''I think I fell down and I am in a lot of pain.'' =
     Inr (JObject [(''is_safe'', JBool False),
                   (''reason'', JString ''Detected crisis keyword: fell'')])"
proof -
  let ?u = "''I think I fell down and I am in a lot of pain.''"
  have r: "\<And>reply. result_get (call_a2a_agent (net_reply reply) str_label
                        ''http://safety-agent:8080'' ?u) ''response_text'' ''{}'' = reply"
    by (simp add: call_a2a_agent_def result_get_def net_reply_def)
  have a: "json_loads cpython ''I am not sure what to say.'' = Inl JSONDecodeError"
    by code_simp
  have b: "json_loads cpython (replicate 1000 (CHR ''['')) = Inl (Exception ''RecursionError'')"
    using json_loads_deep_array[of cpython 1000] by (simp add: cpython_def)
  have c: "json_loads cpython crisis_reply =
     Inr (JObject [(''is_safe'', JBool False),
                   (''reason'', JString ''Detected crisis keyword: fell'')])"
    by code_simp
  from decode_error_is_assumed_safe[OF r, of "json_loads cpython"] a
  have 1: "check_safety (json_loads cpython) (net_reply ''I am not sure what to say.'')
             str_label ?u =
             Inr (JObject [(''is_safe'', JBool True),
                           (''reason'', JString ''Parse error, assuming safe'')])"
    by blast
  from decode_error_is_assumed_safe
         [OF r, of "json_loads cpython" "replicate 1000 (CHR ''['')"
                   "Exception ''RecursionError''"] b
  have 2: "check_safety (json_loads cpython) (net_reply (replicate 1000 (CHR ''[''))) str_label ?u =
             Inl (Exception ''RecursionError'')"
    by simp
  from decode_error_is_assumed_safe[OF r, of "json_loads cpython" crisis_reply] c
  have 3: "check_safety (json_loads cpython) (net_reply crisis_reply) str_label ?u =
     Inr (JObject [(''is_safe'', JBool False),
                   (''reason'', JString ''Detected crisis keyword: fell'')])"
    by blast
  from a b c 1 2 3 show ?thesis by simp
qed

subsection \<open>Claim C7\<close>

text \<open>
  The text \<^verbatim>\<open>process_message\<close> returns is the text of the first part of the last final
  response that has parts.
\<close>

lemma final_text_last:
  "final_text (steps @ [step]) response_text =
     (if is_final_response step
      then (case content_parts step of
              [] \<Rightarrow> final_text steps response_text
            | part # parts \<Rightarrow> part)
      else final_text steps response_text)"
  by (induction steps arbitrary: response_text) (simp_all split: list.splits)

lemma emergency_contacts_fixed:
  "map (\<lambda>c. (contact_name c, preferred_method c))
     (emergency_contacts (get_emergency_context now user_id)) =
     [(''Tommy'', ''call''), (''Dr. Smith'', ''message'')]"
  by (simp add: get_emergency_context_def)

text \<open>
  C7, as stated, fails in a run in which the language model answers the confirmation
  \<open>yes please help\<close> with the action \<^verbatim>\<open>execute_action\<close> and the method \<open>message\<close>: the
  first contact of the emergency context prefers \<open>call\<close>, and the Safety executor completes
  the task with the answer of the model as it is, which names \<open>message\<close>.
\<close>

theorem model_reply_names_other_method:
  "preferred_method (hd (emergency_contacts (get_emergency_context ''10:15'' ''default_user''))) =
     ''call'' \<and>
   process_message confirming_run ''default_user'' ''ctx-7'' ''yes please help'' =
     Inr confirmed_reply \<and>
   SafetyExecutor_execute sdk_ok confirming_run str_label confirm_request [] =
     [Task_event
        \<lparr>task_id = ''task-1'', task_context_id = ''ctx-7'', task_state = Submitted,
         task_artifacts = [], task_history = [request_message confirm_request]\<rparr>,
      Task_event
        \<lparr>task_id = ''task-1'', task_context_id = ''ctx-7'', task_state = Completed,
         task_artifacts =
           [\<lparr>artifact_name = ''safety_analysis_result'', artifact_parts = [confirmed_reply]\<rparr>],
         task_history = [request_message confirm_request]\<rparr>] \<and>
   json_loads cpython confirmed_reply =
     Inr (JObject [(''riskLevel'', JString ''HIGH''), (''action'', JString ''execute_action''),
                   (''method'', JString ''message'')]) \<and>
   dict_get (JObject [(''riskLevel'', JString ''HIGH''), (''action'', JString ''execute_action''),
                      (''method'', JString ''message'')]) ''action'' JNull =
     Inr (JString ''execute_action'') \<and>
   dict_get (JObject [(''riskLevel'', JString ''HIGH''), (''action'', JString ''execute_action''),
                      (''method'', JString ''message'')]) ''method'' JNull =
     Inr (JString ''message'') \<and>
   ''message'' \<noteq>
     preferred_method (hd (emergency_contacts (get_emergency_context ''10:15'' ''default_user'')))"
  by code_simp

text \<open>
  C7, amended. The method of an \<^verbatim>\<open>execute_action\<close> is the one the final response of the
  language model names. When the run of the model ends, without an exception, with a final
  response whose first part is a text that is not empty, \<^verbatim>\<open>process_message\<close> returns that
  text unchanged, whatever action and method it names, and the Safety executor completes
  the task with it; no function selects a contact or checks the method. What is fixed is
  the emergency context: for every user id and clock reading its contacts are Tommy, who
  prefers \<open>call\<close>, and Dr. Smith, who prefers \<open>message\<close>, in this order, and two runs differ
  in the clock reading only.
\<close>

theorem model_reply_is_returned_unchanged:
  assumes "run_steps (adk ''default_user'' (request_context_id ctx) (user_input ctx)) =
             steps @ [\<lparr>is_final_response = True, content_parts = Some reply # parts\<rparr>]"
    and "reply \<noteq> ''''"
    and "\<not> safety_processing_raises sdk adk ctx"
  shows "process_message adk ''default_user'' (request_context_id ctx) (user_input ctx) =
           Inr reply \<and>
         (\<exists>before t. SafetyExecutor_execute sdk adk str_exn ctx q =
                        q @ before @ [Task_event t] \<and>
                     task_state t = Completed \<and>
                     task_artifacts t =
                       [\<lparr>artifact_name = ''safety_analysis_result'',
                         artifact_parts = [reply]\<rparr>]) \<and>
         map (\<lambda>c. (contact_name c, preferred_method c))
           (emergency_contacts (get_emergency_context now user_id)) =
           [(''Tommy'', ''call''), (''Dr. Smith'', ''message'')] \<and>
         get_emergency_context now user_id =
           (get_emergency_context now' user_id')\<lparr>current_time := now\<rparr>"
proof -
  let ?run = "adk ''default_user'' (request_context_id ctx) (user_input ctx)"
  from assms(3) have run: "\<not> (get_session_raises ?run \<and> create_session_raises ?run \<noteq> None)"
    "run_raises ?run = None"
    by (auto simp: safety_processing_raises_def Let_def)
  have "final_text (run_steps ?run) (Some '''') = Some reply"
    using assms(1) by (simp add: final_text_last)
  with run assms(2)
  have p: "process_message adk ''default_user'' (request_context_id ctx) (user_input ctx) =
             Inr reply"
    by (auto simp: process_message_def Let_def)
  from SafetyExecutor_execute_completes[OF assms(3), of str_exn q] p
  have e: "\<exists>before t. SafetyExecutor_execute sdk adk str_exn ctx q =
                        q @ before @ [Task_event t] \<and>
                     task_state t = Completed \<and>
                     task_artifacts t =
                       [\<lparr>artifact_name = ''safety_analysis_result'',
                         artifact_parts = [reply]\<rparr>]"
    by auto
  have c: "map (\<lambda>c. (contact_name c, preferred_method c))
           (emergency_contacts (get_emergency_context now user_id)) =
           [(''Tommy'', ''call''), (''Dr. Smith'', ''message'')]"
    by (rule emergency_contacts_fixed)
  have f: "get_emergency_context now user_id =
           (get_emergency_context now' user_id')\<lparr>current_time := now\<rparr>"
    by (simp add: get_emergency_context_def)
  from p e c f show ?thesis by blast
qed

text \<open>The run of the counterexample, and a context read at another time for another user.\<close>

theorem model_reply_is_returned_unchanged_witness:
  "run_steps (confirming_run ''default_user'' (request_context_id confirm_request)
                (user_input confirm_request)) =
     [] @ [\<lparr>is_final_response = True, content_parts = Some confirmed_reply # []\<rparr>] \<and>
   confirmed_reply \<noteq> '''' \<and>
   \<not> safety_processing_raises sdk_ok confirming_run confirm_request \<and>
   process_message confirming_run ''default_user'' (request_context_id confirm_request)
     (user_input confirm_request) = Inr confirmed_reply \<and>
   map (\<lambda>c. (contact_name c, preferred_method c))
     (emergency_contacts (get_emergency_context ''10:15'' ''default_user'')) =
     [(''Tommy'', ''call''), (''Dr. Smith'', ''message'')] \<and>
   get_emergency_context ''10:15'' ''default_user'' =
     (get_emergency_context ''23:40'' ''user-2'')\<lparr>current_time := ''10:15''\<rparr>"
proof -
  have a: "run_steps (confirming_run ''default_user'' (request_context_id confirm_request)
                (user_input confirm_request)) =
     [] @ [\<lparr>is_final_response = True, content_parts = Some confirmed_reply # []\<rparr>]"
    by (simp add: confirming_run_def)
  have b: "confirmed_reply \<noteq> ''''"
    by (simp add: confirmed_reply_def)
  have c: "\<not> safety_processing_raises sdk_ok confirming_run confirm_request"
    by (simp add: safety_processing_raises_def sdk_ok_def confirming_run_def)
  from model_reply_is_returned_unchanged
         [OF a b c, of str_label "[]" "''10:15''" "''default_user''" "''23:40''" "''user-2''"]
       a b c
  show ?thesis by blast
qed

end
